theory Spec2Isabelle
  imports Complex_Main "HOL-Library.Multiset" "HOL-Library.Product_Lexorder"
begin

section \<open>Values, history entries and task documents\<close>

text \<open>
  The task service of nexus-ai-task keeps its tasks in a MongoDB collection and reaches
  it through Mongoose. A document is modelled as a record with the fields of the schema
  class \<open>Task\<close>; \<open>oid\<close> is the document's \<open>_id\<close>. Instants (\<open>Date\<close>) are
  milliseconds since the epoch. An optional field that is unset (\<open>undefined\<close>, or
  \<open>null\<close> for \<open>deleted_at\<close>) is \<open>None\<close>. The record holds the paths of the
  schema, that is the properties that carry \<open>@Prop\<close>. \<open>created_at\<close> and
  \<open>updated_at\<close> carry none: the schema is strict, so what the code assigns to them or
  puts under \<open>$set\<close> for them is never stored, and they are no fields here. The fields
  \<open>createdAt\<close> and \<open>updatedAt\<close> that Mongoose maintains by itself for
  \<open>timestamps: true\<close> are left out as well. \<open>project_id\<close> is declared with
  \<open>Types.ObjectId\<close>, which Mongoose reads as a path of mixed type: it holds whatever
  value is written to it, a string from a DTO included, and nothing is cast.
\<close>

type_synonym ObjectId = nat
type_synonym Date = nat

datatype TaskStatus = TODO | IN_PROGRESS | DONE | BLOCKED

fun status_str :: "TaskStatus \<Rightarrow> string" where
  "status_str TODO = ''todo''"
| "status_str IN_PROGRESS = ''in_progress''"
| "status_str DONE = ''done''"
| "status_str BLOCKED = ''blocked''"

text \<open>
  The values a change record can hold (\<open>old_value\<close> and \<open>new_value\<close> are \<open>any\<close> in the
  source). Dates, arrays and ObjectIds are JavaScript objects; the others are primitives.
\<close>

datatype val =
    VUndefined
  | VNull
  | VStr string
  | VNum real
  | VDate Date
  | VArr "string list"
  | VObjectId ObjectId

fun is_object :: "val \<Rightarrow> bool" where
  "is_object (VDate _) = True"
| "is_object (VArr _) = True"
| "is_object (VObjectId _) = True"
| "is_object _ = False"

text \<open>
  \<open>a !== b\<close>. Primitives are compared by value. An object is only equal to itself;
  the two operands of the service's comparisons never are the same object (one comes from
  the request, the other from the store), so a comparison with an object is always "different".
\<close>

definition strict_ne :: "val \<Rightarrow> val \<Rightarrow> bool" where
  "strict_ne a b = (is_object a \<or> is_object b \<or> a \<noteq> b)"

text \<open>Truthiness, as \<open>&&\<close>, \<open>!\<close> and \<open>if\<close> read a value.\<close>

fun truthy :: "val \<Rightarrow> bool" where
  "truthy VUndefined = False"
| "truthy VNull = False"
| "truthy (VStr s) = (s \<noteq> [])"
| "truthy (VNum n) = (n \<noteq> 0)"
| "truthy _ = True"

text \<open>An optional value as a value: \<open>undefined\<close> when it is absent.\<close>

definition opt_val :: "('a \<Rightarrow> val) \<Rightarrow> 'a option \<Rightarrow> val" where
  "opt_val f x = (case x of None \<Rightarrow> VUndefined | Some y \<Rightarrow> f y)"

text \<open>
  BSON has no \<open>undefined\<close>: where a stored change record was given \<open>undefined\<close>, it
  holds \<open>null\<close>.
\<close>

definition to_bson :: "val \<Rightarrow> val" where
  "to_bson v = (if v = VUndefined then VNull else v)"

record change =
  field :: string
  old_value :: val
  new_value :: val

record TaskHistoryEntry =
  action :: string
  user_id :: string
  timestamp :: Date
  changes :: "change list"

record task =
  oid :: ObjectId
  title :: string
  description :: "string option"
  status :: TaskStatus
  priority :: nat
  team_id :: string
  project_id :: val
  assignee_id :: "string option"
  created_by :: string
  labels :: "string list"
  tags :: "string list"
  due_date :: "Date option"
  start_date :: "Date option"
  estimated_hours :: "real option"
  position :: real
  completed_at :: "Date option"
  history :: "TaskHistoryEntry list"
  deleted_at :: "Date option"

text \<open>
  The collection behind \<open>taskModel\<close>: its documents in the order they were inserted, and
  a count of the mutating calls (\<open>save\<close>, \<open>findByIdAndUpdate\<close>) that have been issued
  to it. The count is not data of the program; it makes "no write was issued" a statement
  about the state.
\<close>

record task_collection =
  docs :: "task list"
  writes :: nat

text \<open>
  What an operation can throw: the two exceptions of the services, Mongoose's validation
  and cast errors, the store's duplicate-key error (E11000), the driver's error on a
  malformed id string, and the TypeError of a call on \<open>null\<close>.
\<close>

datatype error =
    NotFoundException
  | ConflictException
  | ValidationError
  | CastError
  | DuplicateKeyError
  | BSONError
  | TypeError

section \<open>String helpers\<close>

text \<open>
  A string is the UTF-8 bytes of its text. \<open>String.prototype.trim\<close> removes the white
  space and the line terminators of ECMAScript from both ends: the six ASCII ones,
  U+00A0, U+1680, U+2000 to U+200A, U+2028, U+2029, U+202F, U+205F, U+3000 and U+FEFF,
  listed here by their bytes.
\<close>

definition white_space :: "string list" where
  "white_space =
     [[CHR 0x09], [CHR 0x0A], [CHR 0x0B], [CHR 0x0C], [CHR 0x0D], [CHR 0x20],
      [CHR 0xC2, CHR 0xA0],
      [CHR 0xE1, CHR 0x9A, CHR 0x80],
      [CHR 0xE2, CHR 0x80, CHR 0x80], [CHR 0xE2, CHR 0x80, CHR 0x81],
      [CHR 0xE2, CHR 0x80, CHR 0x82], [CHR 0xE2, CHR 0x80, CHR 0x83],
      [CHR 0xE2, CHR 0x80, CHR 0x84], [CHR 0xE2, CHR 0x80, CHR 0x85],
      [CHR 0xE2, CHR 0x80, CHR 0x86], [CHR 0xE2, CHR 0x80, CHR 0x87],
      [CHR 0xE2, CHR 0x80, CHR 0x88], [CHR 0xE2, CHR 0x80, CHR 0x89],
      [CHR 0xE2, CHR 0x80, CHR 0x8A],
      [CHR 0xE2, CHR 0x80, CHR 0xA8], [CHR 0xE2, CHR 0x80, CHR 0xA9],
      [CHR 0xE2, CHR 0x80, CHR 0xAF],
      [CHR 0xE2, CHR 0x81, CHR 0x9F],
      [CHR 0xE3, CHR 0x80, CHR 0x80],
      [CHR 0xEF, CHR 0xBB, CHR 0xBF]]"

text \<open>Dropping, from the front of a string, every leading occurrence of one of the given
  byte sequences.\<close>

function drop_leading :: "string list \<Rightarrow> string \<Rightarrow> string" where
  "drop_leading ws s =
     (case find (\<lambda>w. w \<noteq> [] \<and> take (length w) s = w) ws of
        None \<Rightarrow> s
      | Some w \<Rightarrow> drop_leading ws (drop (length w) s))"
  by pat_completeness auto
termination
proof (relation "measure (\<lambda>(ws, s). length s)")
  show "wf (measure (\<lambda>(ws, s). length s))" by simp
next
  fix ws :: "string list" and s w :: string
  assume "find (\<lambda>w. w \<noteq> [] \<and> take (length w) s = w) ws = Some w"
  then have "w \<noteq> []" and "take (length w) s = w"
    by (auto simp: find_Some_iff)
  then have "s \<noteq> []" by auto
  with \<open>w \<noteq> []\<close> show "((ws, drop (length w) s), (ws, s)) \<in> measure (\<lambda>(ws, s). length s)"
    by simp
qed

declare drop_leading.simps [simp del]

definition trim :: "string \<Rightarrow> string" where
  "trim s = rev (drop_leading (map rev white_space) (rev (drop_leading white_space s)))"

text \<open>
  \<open>s.length\<close>, which the \<open>maxlength\<close> validators compare: the number of UTF-16 code
  units, one for each code point and two for a code point of four bytes.
\<close>

definition js_length :: "string \<Rightarrow> nat" where
  "js_length s =
     length (filter (\<lambda>c. (of_char c :: nat) < 0x80 \<or> 0xC0 \<le> (of_char c :: nat)) s)
     + length (filter (\<lambda>c. 0xF0 \<le> (of_char c :: nat)) s)"

text \<open>The pattern \<open>/^[a-z0-9]{25}$/\<close> of the id fields.\<close>

definition is_id25 :: "string \<Rightarrow> bool" where
  "is_id25 s = (length s = 25 \<and> list_all (\<lambda>c. c \<in> set ''abcdefghijklmnopqrstuvwxyz0123456789'') s)"

text \<open>\<open>split(',')\<close>.\<close>

fun split_comma :: "string \<Rightarrow> string list" where
  "split_comma [] = [[]]"
| "split_comma (c # cs) =
     (if c = CHR '','' then [] # split_comma cs
      else (case split_comma cs of [] \<Rightarrow> [[c]] | w # ws \<Rightarrow> (c # w) # ws))"

section \<open>The task schema: pre-save hook and \<open>addHistoryEntry\<close>\<close>

text \<open>
  \<open>TaskSchema.pre('save')\<close>. \<open>isNew\<close> and \<open>isModified('status')\<close> are the two facts the
  hook asks of the document. Its assignments to \<open>created_at\<close> and \<open>updated_at\<close> leave
  nothing in the stored document.
\<close>

definition pre_save :: "bool \<Rightarrow> bool \<Rightarrow> Date \<Rightarrow> task \<Rightarrow> task" where
  "pre_save isNew isModified_status now this =
     (if isNew then
        this\<lparr>history := history this @
               [\<lparr>action = ''created'', user_id = created_by this, timestamp = now,
                 changes = [\<lparr>field = ''status'', old_value = VNull,
                             new_value = VStr (status_str (status this))\<rparr>]\<rparr>]\<rparr>
      else if isModified_status \<and> status this = DONE \<and> completed_at this = None then
        this\<lparr>completed_at := Some now\<rparr>
      else this)"

text \<open>
  The validators of the schema, which \<open>save\<close> runs before the pre-save hook:
  \<open>title\<close> required and at most 200 long, \<open>description\<close> at most 5000,
  \<open>priority\<close> one of 1 to 5, \<open>team_id\<close> and \<open>created_by\<close> required and of the
  id pattern, \<open>assignee_id\<close> of the id pattern unless unset or empty, at most 50
  labels, \<open>estimated_hours\<close> between 0 and 9999, at most 100 history entries.
  (\<open>status\<close> is of the enumeration by its type.)
\<close>

definition validate_task :: "task \<Rightarrow> bool" where
  "validate_task t =
     (title t \<noteq> [] \<and> js_length (title t) \<le> 200
      \<and> (case description t of None \<Rightarrow> True | Some x \<Rightarrow> js_length x \<le> 5000)
      \<and> 1 \<le> priority t \<and> priority t \<le> 5
      \<and> is_id25 (team_id t) \<and> is_id25 (created_by t)
      \<and> (case assignee_id t of None \<Rightarrow> True | Some a \<Rightarrow> a = [] \<or> is_id25 a)
      \<and> length (labels t) \<le> 50
      \<and> (case estimated_hours t of None \<Rightarrow> True | Some h \<Rightarrow> 0 \<le> h \<and> h \<le> 9999)
      \<and> length (history t) \<le> 100)"

text \<open>
  \<open>TaskSchema.methods.addHistoryEntry\<close>: push, then keep the last 100 entries
  (\<open>slice(-100)\<close>).
\<close>

definition addHistoryEntry :: "Date \<Rightarrow> string \<Rightarrow> string \<Rightarrow> change list \<Rightarrow> task \<Rightarrow> task" where
  "addHistoryEntry now act userId chs this =
     (let h = history this @ [\<lparr>action = act, user_id = userId, timestamp = now, changes = chs\<rparr>]
      in this\<lparr>history := (if length h > 100 then drop (length h - 100) h else h)\<rparr>)"

section \<open>Store operations\<close>

text \<open>
  \<open>findByIdAndUpdate(id, update, {new: true})\<close>: the first document with that \<open>_id\<close> is
  replaced by its updated version, which is returned; \<open>None\<close> is Mongoose's \<open>null\<close>.
  The call counts as a write whether or not it finds a document. None of the updates of
  the task service touches \<open>_id\<close>, the one unique key of the collection.
\<close>

fun update_first :: "('d \<Rightarrow> bool) \<Rightarrow> ('d \<Rightarrow> 'd) \<Rightarrow> 'd list \<Rightarrow> 'd list \<times> 'd option" where
  "update_first P f [] = ([], None)"
| "update_first P f (d # ds) =
     (if P d then (f d # ds, Some (f d))
      else (case update_first P f ds of (ds', r) \<Rightarrow> (d # ds', r)))"

definition findByIdAndUpdate :: "ObjectId \<Rightarrow> (task \<Rightarrow> task) \<Rightarrow> task_collection \<Rightarrow> task_collection \<times> task option" where
  "findByIdAndUpdate i f s =
     (case update_first (\<lambda>d. oid d = i) f (docs s) of
        (ds', r) \<Rightarrow> (\<lparr>docs = ds', writes = Suc (writes s)\<rparr>, r))"

text \<open>
  \<open>find(filter).sort(spec)\<close>. The store answers with the matching documents in an order
  that respects the sort specification; the order of documents the specification does not
  separate is the store's choice, so an answer is any list accepted here.
\<close>

definition find_sort :: "'d list \<Rightarrow> ('d \<Rightarrow> bool) \<Rightarrow> ('d \<Rightarrow> 'd \<Rightarrow> bool) \<Rightarrow> 'd list \<Rightarrow> bool" where
  "find_sort ds flt ord res \<longleftrightarrow> mset res = mset (filter flt ds) \<and> sorted_wrt ord res"

section \<open>TasksService\<close>

text \<open>
  Every operation takes the collection, and the ones that read the clock take \<open>now\<close>
  (one instant for all the \<open>new Date()\<close> of a call). \<open>toObjectId\<close> is the driver's
  reading of an id string: \<open>None\<close> where \<open>Types.ObjectId.isValid\<close> is false (and where
  \<open>new Types.ObjectId\<close> throws). Exception messages are not kept.
\<close>

record CreateTaskDto =
  c_title :: string
  c_description :: "string option"
  c_status :: "TaskStatus option"
  c_priority :: "nat option"
  c_project_id :: "string option"
  c_assignee_id :: "string option"
  c_labels :: "string list option"
  c_tags :: "string list option"
  c_due_date :: "Date option"
  c_start_date :: "Date option"
  c_estimated_hours :: "real option"

text \<open>
  \<open>create\<close>: the document is built from the DTO with the schema's defaults
  (\<open>status\<close> todo, \<open>priority\<close> 3, \<open>deleted_at\<close> null, empty arrays) and its
  setters (\<open>title\<close> and \<open>description\<close> are trimmed); \<open>project_id\<close> is stored as
  the DTO's string; \<open>position\<close> is \<open>Date.now()\<close>. \<open>save\<close> validates the document,
  runs the pre-save hook on it and inserts it. \<open>new_id\<close> is the \<open>_id\<close> the driver
  generates; the store refuses an \<open>_id\<close> it already holds.
\<close>

definition create :: "Date \<Rightarrow> ObjectId \<Rightarrow> task_collection \<Rightarrow> CreateTaskDto \<Rightarrow> string \<Rightarrow> string \<Rightarrow> task_collection \<times> (error + task)" where
  "create now new_id s dto teamId userId =
     (let t = \<lparr>oid = new_id,
               title = trim (c_title dto),
               description = map_option trim (c_description dto),
               status = (case c_status dto of None \<Rightarrow> TODO | Some st \<Rightarrow> st),
               priority = (case c_priority dto of None \<Rightarrow> 3 | Some p \<Rightarrow> p),
               team_id = teamId,
               project_id = opt_val VStr (c_project_id dto),
               assignee_id = c_assignee_id dto,
               created_by = userId,
               labels = (case c_labels dto of None \<Rightarrow> [] | Some ls \<Rightarrow> ls),
               tags = (case c_tags dto of None \<Rightarrow> [] | Some ts \<Rightarrow> ts),
               due_date = c_due_date dto,
               start_date = c_start_date dto,
               estimated_hours = c_estimated_hours dto,
               position = real now,
               completed_at = None,
               history = [],
               deleted_at = None\<rparr>;
          savedTask = pre_save True True now t
      in if \<not> validate_task t then (s, Inl ValidationError)
         else if list_ex (\<lambda>d. oid d = new_id) (docs s)
         then (s\<lparr>writes := Suc (writes s)\<rparr>, Inl DuplicateKeyError)
         else (\<lparr>docs = docs s @ [savedTask], writes = Suc (writes s)\<rparr>, Inr savedTask))"

text \<open>\<open>findOne\<close>: the filter is \<open>{_id: id, team_id: teamId, deleted_at: null}\<close>.\<close>

definition findOne :: "(string \<Rightarrow> ObjectId option) \<Rightarrow> task_collection \<Rightarrow> string \<Rightarrow> string \<Rightarrow> error + task" where
  "findOne toObjectId s ident teamId =
     (case toObjectId ident of
        None \<Rightarrow> Inl NotFoundException
      | Some i \<Rightarrow>
          (case find (\<lambda>d. oid d = i \<and> team_id d = teamId \<and> deleted_at d = None) (docs s) of
             None \<Rightarrow> Inl NotFoundException
           | Some t \<Rightarrow> Inr t))"

subsection \<open>update\<close>

text \<open>
  An \<open>UpdateTaskDto\<close> is the list of its own properties in the order \<open>Object.keys\<close>
  yields them, each with its value; \<open>None\<close> is a property that is present with the
  value \<open>undefined\<close>. A JavaScript object has no property twice, so the keys of a DTO
  are distinct (\<open>wf_dto\<close>).
\<close>

datatype patch_entry =
    Title "string option"
  | Description "string option"
  | Status "TaskStatus option"
  | Priority "nat option"
  | Project_id "string option"
  | Assignee_id "string option"
  | Labels "string list option"
  | Tags "string list option"
  | Due_date "Date option"
  | Start_date "Date option"
  | Estimated_hours "real option"
  | Position "real option"

type_synonym UpdateTaskDto = "patch_entry list"

fun key_of :: "patch_entry \<Rightarrow> string" where
  "key_of (Title _) = ''title''"
| "key_of (Description _) = ''description''"
| "key_of (Status _) = ''status''"
| "key_of (Priority _) = ''priority''"
| "key_of (Project_id _) = ''project_id''"
| "key_of (Assignee_id _) = ''assignee_id''"
| "key_of (Labels _) = ''labels''"
| "key_of (Tags _) = ''tags''"
| "key_of (Due_date _) = ''due_date''"
| "key_of (Start_date _) = ''start_date''"
| "key_of (Estimated_hours _) = ''estimated_hours''"
| "key_of (Position _) = ''position''"

definition wf_dto :: "UpdateTaskDto \<Rightarrow> bool" where
  "wf_dto dto = distinct (map key_of dto)"

text \<open>\<open>(updateTaskDto as any)[key]\<close> for the key of an entry.\<close>

fun new_val :: "patch_entry \<Rightarrow> val" where
  "new_val (Title x) = opt_val VStr x"
| "new_val (Description x) = opt_val VStr x"
| "new_val (Status x) = opt_val (\<lambda>st. VStr (status_str st)) x"
| "new_val (Priority x) = opt_val (\<lambda>p. VNum (real p)) x"
| "new_val (Project_id x) = opt_val VStr x"
| "new_val (Assignee_id x) = opt_val VStr x"
| "new_val (Labels x) = opt_val VArr x"
| "new_val (Tags x) = opt_val VArr x"
| "new_val (Due_date x) = opt_val VDate x"
| "new_val (Start_date x) = opt_val VDate x"
| "new_val (Estimated_hours x) = opt_val VNum x"
| "new_val (Position x) = opt_val VNum x"

text \<open>\<open>updateTaskDto.key\<close>: the value of a property, \<open>undefined\<close> when it is absent.\<close>

definition dto_get :: "UpdateTaskDto \<Rightarrow> string \<Rightarrow> val" where
  "dto_get dto k = (case find (\<lambda>e. key_of e = k) dto of None \<Rightarrow> VUndefined | Some e \<Rightarrow> new_val e)"

text \<open>
  \<open>(task as any)[key]\<close> on the object \<open>findOne\<close> returns, for the keys a DTO can
  have.
\<close>

definition task_get :: "task \<Rightarrow> string \<Rightarrow> val" where
  "task_get t k =
     (if k = ''title'' then VStr (title t)
      else if k = ''description'' then opt_val VStr (description t)
      else if k = ''status'' then VStr (status_str (status t))
      else if k = ''priority'' then VNum (real (priority t))
      else if k = ''project_id'' then project_id t
      else if k = ''assignee_id'' then opt_val VStr (assignee_id t)
      else if k = ''labels'' then VArr (labels t)
      else if k = ''tags'' then VArr (tags t)
      else if k = ''due_date'' then opt_val VDate (due_date t)
      else if k = ''start_date'' then opt_val VDate (start_date t)
      else if k = ''estimated_hours'' then opt_val VNum (estimated_hours t)
      else if k = ''position'' then VNum (position t)
      else VUndefined)"

text \<open>
  One property of \<open>$set: {...updateTaskDto}\<close> applied to a stored document. Mongoose
  leaves out a property whose value is \<open>undefined\<close> and trims \<open>title\<close> and
  \<open>description\<close> (\<open>trim: true\<close>); \<open>project_id\<close> is stored as the string given.
  Update validators are off, so nothing is validated.
\<close>

fun apply_set :: "patch_entry \<Rightarrow> task \<Rightarrow> task" where
  "apply_set (Title (Some x)) d = d\<lparr>title := trim x\<rparr>"
| "apply_set (Description (Some x)) d = d\<lparr>description := Some (trim x)\<rparr>"
| "apply_set (Status (Some x)) d = d\<lparr>status := x\<rparr>"
| "apply_set (Priority (Some x)) d = d\<lparr>priority := x\<rparr>"
| "apply_set (Project_id (Some x)) d = d\<lparr>project_id := VStr x\<rparr>"
| "apply_set (Assignee_id (Some x)) d = d\<lparr>assignee_id := Some x\<rparr>"
| "apply_set (Labels (Some x)) d = d\<lparr>labels := x\<rparr>"
| "apply_set (Tags (Some x)) d = d\<lparr>tags := x\<rparr>"
| "apply_set (Due_date (Some x)) d = d\<lparr>due_date := Some x\<rparr>"
| "apply_set (Start_date (Some x)) d = d\<lparr>start_date := Some x\<rparr>"
| "apply_set (Estimated_hours (Some x)) d = d\<lparr>estimated_hours := Some x\<rparr>"
| "apply_set (Position (Some x)) d = d\<lparr>position := x\<rparr>"
| "apply_set _ d = d"

text \<open>The change records and the action label that \<open>update\<close> computes from the snapshot.\<close>

definition changes_of :: "task \<Rightarrow> UpdateTaskDto \<Rightarrow> change list" where
  "changes_of t dto =
     map (\<lambda>e. \<lparr>field = key_of e, old_value = task_get t (key_of e), new_value = new_val e\<rparr>)
       (filter (\<lambda>e. strict_ne (new_val e) (task_get t (key_of e)) \<and> new_val e \<noteq> VUndefined) dto)"

definition action_of :: "task \<Rightarrow> UpdateTaskDto \<Rightarrow> string" where
  "action_of t dto =
     (if truthy (dto_get dto ''status'') \<and> strict_ne (dto_get dto ''status'') (task_get t ''status'')
      then ''status_changed''
      else if truthy (dto_get dto ''assignee_id'')
              \<and> strict_ne (dto_get dto ''assignee_id'') (task_get t ''assignee_id'')
      then ''assigned''
      else ''updated'')"

text \<open>
  The update document of \<open>update\<close>, as a function on the stored document: \<open>$set\<close> of
  the DTO's properties and, when the DTO's status is done and the snapshot has no
  \<open>completed_at\<close>, of \<open>completed_at\<close> (the \<open>updated_at\<close> under \<open>$set\<close> is no path of
  the schema and is dropped); \<open>$push\<close> of one history entry, stored with \<open>null\<close> for an
  old value that was \<open>undefined\<close>.
\<close>

definition stored_change :: "change \<Rightarrow> change" where
  "stored_change ch = ch\<lparr>old_value := to_bson (old_value ch), new_value := to_bson (new_value ch)\<rparr>"

definition update_doc :: "Date \<Rightarrow> task \<Rightarrow> UpdateTaskDto \<Rightarrow> string \<Rightarrow> task \<Rightarrow> task" where
  "update_doc now t dto userId d =
     (let d1 = fold apply_set dto d;
          d2 = (if dto_get dto ''status'' = VStr (status_str DONE) \<and> completed_at t = None
                then d1\<lparr>completed_at := Some now\<rparr> else d1)
      in d2\<lparr>history := history d2 @
            [\<lparr>action = action_of t dto, user_id = userId, timestamp = now,
              changes = map stored_change (changes_of t dto)\<rparr>]\<rparr>)"

text \<open>
  \<open>update\<close>. The second NotFound is the one thrown when \<open>findByIdAndUpdate\<close> returns
  \<open>null\<close>.
\<close>

definition update :: "(string \<Rightarrow> ObjectId option) \<Rightarrow> Date \<Rightarrow> task_collection \<Rightarrow> string \<Rightarrow> UpdateTaskDto \<Rightarrow> string \<Rightarrow> string \<Rightarrow> task_collection \<times> (error + task)" where
  "update toObjectId now s ident dto teamId userId =
     (case findOne toObjectId s ident teamId of
        Inl e \<Rightarrow> (s, Inl e)
      | Inr t \<Rightarrow>
          (case toObjectId ident of
             None \<Rightarrow> (s, Inl CastError)
           | Some i \<Rightarrow>
               (case findByIdAndUpdate i (update_doc now t dto userId) s of
                  (s', None) \<Rightarrow> (s', Inl NotFoundException)
                | (s', Some updatedTask) \<Rightarrow> (s', Inr updatedTask))))"

subsection \<open>remove, restore, updatePosition\<close>

text \<open>
  In the three of them, too, the \<open>updated_at\<close> under \<open>$set\<close> is dropped: \<open>remove\<close> sets
  \<open>deleted_at\<close>, \<open>restore\<close> unsets it, \<open>updatePosition\<close> sets \<open>position\<close>.
\<close>

definition remove_doc :: "Date \<Rightarrow> string \<Rightarrow> task \<Rightarrow> task" where
  "remove_doc now userId d =
     d\<lparr>deleted_at := Some now,
       history := history d @
         [\<lparr>action = ''deleted'', user_id = userId, timestamp = now,
           changes = [\<lparr>field = ''deleted_at'', old_value = VNull, new_value = VDate now\<rparr>]\<rparr>]\<rparr>"

definition remove :: "(string \<Rightarrow> ObjectId option) \<Rightarrow> Date \<Rightarrow> task_collection \<Rightarrow> string \<Rightarrow> string \<Rightarrow> string \<Rightarrow> task_collection \<times> (error + unit)" where
  "remove toObjectId now s ident teamId userId =
     (case findOne toObjectId s ident teamId of
        Inl e \<Rightarrow> (s, Inl e)
      | Inr t \<Rightarrow>
          (case toObjectId ident of
             None \<Rightarrow> (s, Inl CastError)
           | Some i \<Rightarrow> (fst (findByIdAndUpdate i (remove_doc now userId) s), Inr ())))"

text \<open>
  \<open>restore\<close> looks the task up with \<open>deleted_at: {$ne: null}\<close>. \<open>restoredTask!\<close> is
  \<open>null\<close> when the update finds no document; \<open>toObject\<close> then throws a TypeError.
\<close>

definition restore_doc :: "Date \<Rightarrow> task \<Rightarrow> string \<Rightarrow> task \<Rightarrow> task" where
  "restore_doc now t userId d =
     d\<lparr>deleted_at := None,
       history := history d @
         [\<lparr>action = ''restored'', user_id = userId, timestamp = now,
           changes = [\<lparr>field = ''deleted_at'', old_value = opt_val VDate (deleted_at t),
                       new_value = VNull\<rparr>]\<rparr>]\<rparr>"

definition restore :: "(string \<Rightarrow> ObjectId option) \<Rightarrow> Date \<Rightarrow> task_collection \<Rightarrow> string \<Rightarrow> string \<Rightarrow> string \<Rightarrow> task_collection \<times> (error + task)" where
  "restore toObjectId now s ident teamId userId =
     (case toObjectId ident of
        None \<Rightarrow> (s, Inl NotFoundException)
      | Some i \<Rightarrow>
          (case find (\<lambda>d. oid d = i \<and> team_id d = teamId \<and> deleted_at d \<noteq> None) (docs s) of
             None \<Rightarrow> (s, Inl NotFoundException)
           | Some t \<Rightarrow>
               (case findByIdAndUpdate i (restore_doc now t userId) s of
                  (s', None) \<Rightarrow> (s', Inl TypeError)
                | (s', Some restoredTask) \<Rightarrow> (s', Inr restoredTask))))"

definition updatePosition :: "(string \<Rightarrow> ObjectId option) \<Rightarrow> Date \<Rightarrow> task_collection \<Rightarrow> string \<Rightarrow> real \<Rightarrow> string \<Rightarrow> string \<Rightarrow> task_collection \<times> (error + task)" where
  "updatePosition toObjectId now s ident newPosition teamId userId =
     (case findOne toObjectId s ident teamId of
        Inl e \<Rightarrow> (s, Inl e)
      | Inr t \<Rightarrow>
          (case toObjectId ident of
             None \<Rightarrow> (s, Inl CastError)
           | Some i \<Rightarrow>
               (case findByIdAndUpdate i (\<lambda>d. d\<lparr>position := newPosition\<rparr>) s of
                  (s', None) \<Rightarrow> (s', Inl TypeError)
                | (s', Some updatedTask) \<Rightarrow> (s', Inr updatedTask))))"

subsection \<open>getKanbanBoard\<close>

text \<open>The board object; \<open>done\<close> is a keyword of Isabelle, so the columns carry a prefix.\<close>

record board =
  b_todo :: "task list"
  b_in_progress :: "task list"
  b_done :: "task list"
  b_blocked :: "task list"

text \<open>
  The filter object: \<open>{team_id, deleted_at: null}\<close> and, for a truthy \<open>projectId\<close>,
  \<open>project_id: new Types.ObjectId(projectId)\<close>, which throws on a malformed id.
\<close>

definition kanban_matches :: "(string \<Rightarrow> ObjectId option) \<Rightarrow> string \<Rightarrow> string option \<Rightarrow> task \<Rightarrow> bool" where
  "kanban_matches toObjectId teamId projectId d =
     (team_id d = teamId \<and> deleted_at d = None
      \<and> (truthy (opt_val VStr projectId)
           \<longrightarrow> Some (project_id d) = map_option VObjectId (toObjectId (the projectId))))"

definition kanban_filter :: "(string \<Rightarrow> ObjectId option) \<Rightarrow> string \<Rightarrow> string option \<Rightarrow> error + (task \<Rightarrow> bool)" where
  "kanban_filter toObjectId teamId projectId =
     (if truthy (opt_val VStr projectId) \<and> toObjectId (the projectId) = None
      then Inl BSONError
      else Inr (kanban_matches toObjectId teamId projectId))"

text \<open>\<open>sort({position: 1})\<close>.\<close>

definition by_position :: "task \<Rightarrow> task \<Rightarrow> bool" where
  "by_position a b = (position a \<le> position b)"

text \<open>The four \<open>tasks.filter(t => t.status === ...)\<close> over the store's answer.\<close>

definition kanban_columns :: "task list \<Rightarrow> board" where
  "kanban_columns tasks =
     \<lparr>b_todo = filter (\<lambda>t. status t = TODO) tasks,
      b_in_progress = filter (\<lambda>t. status t = IN_PROGRESS) tasks,
      b_done = filter (\<lambda>t. status t = DONE) tasks,
      b_blocked = filter (\<lambda>t. status t = BLOCKED) tasks\<rparr>"

text \<open>The column of a board for a status.\<close>

fun column :: "board \<Rightarrow> TaskStatus \<Rightarrow> task list" where
  "column b TODO = b_todo b"
| "column b IN_PROGRESS = b_in_progress b"
| "column b DONE = b_done b"
| "column b BLOCKED = b_blocked b"

text \<open>
  The results \<open>getKanbanBoard\<close> can return on a collection: one for each answer the store
  may give to the sorted query.
\<close>

inductive getKanbanBoard :: "(string \<Rightarrow> ObjectId option) \<Rightarrow> task_collection \<Rightarrow> string \<Rightarrow> string option \<Rightarrow> error + board \<Rightarrow> bool"
  for toObjectId s teamId projectId where
  kanban_throws:
    "kanban_filter toObjectId teamId projectId = Inl e
     \<Longrightarrow> getKanbanBoard toObjectId s teamId projectId (Inl e)"
| kanban_returns:
    "kanban_filter toObjectId teamId projectId = Inr flt
     \<Longrightarrow> find_sort (docs s) flt by_position tasks
     \<Longrightarrow> getKanbanBoard toObjectId s teamId projectId (Inr (kanban_columns tasks))"

subsection \<open>findAll\<close>

record TaskQueryDto =
  q_project_id :: "string option"
  q_status :: "TaskStatus option"
  q_assignee_id :: "string option"
  q_priority :: "nat option"
  q_labels :: "string option"
  q_search :: "string option"
  include_completed :: "bool option"
  include_deleted :: "bool option"

text \<open>The default query \<open>{}\<close>.\<close>

definition default_query :: TaskQueryDto where
  "default_query =
     \<lparr>q_project_id = None, q_status = None, q_assignee_id = None, q_priority = None,
      q_labels = None, q_search = None, include_completed = None, include_deleted = None\<rparr>"

text \<open>
  The filter object \<open>findAll\<close> builds, read as a predicate on documents. \<open>textScore\<close>
  is the store's text index: the score of a document for a search string, \<open>None\<close> when
  the document does not match. A status of the enumeration is a non-empty string, hence
  truthy; \<open>labels: {$in: ls}\<close> holds of a document one of whose labels is in \<open>ls\<close>.
\<close>

definition findAll_matches :: "(string \<Rightarrow> ObjectId option) \<Rightarrow> (string \<Rightarrow> task \<Rightarrow> real option) \<Rightarrow> string \<Rightarrow> TaskQueryDto \<Rightarrow> task \<Rightarrow> bool" where
  "findAll_matches toObjectId textScore teamId query d =
     (team_id d = teamId
      \<and> (include_deleted query \<noteq> Some True \<longrightarrow> deleted_at d = None)
      \<and> (case q_status query of
           Some st \<Rightarrow> status d = st
         | None \<Rightarrow> (include_completed query \<noteq> Some True \<longrightarrow> status d \<noteq> DONE))
      \<and> (truthy (opt_val VStr (q_project_id query))
           \<longrightarrow> Some (project_id d) = map_option VObjectId (toObjectId (the (q_project_id query))))
      \<and> (truthy (opt_val VStr (q_assignee_id query)) \<longrightarrow> assignee_id d = q_assignee_id query)
      \<and> (truthy (opt_val (\<lambda>p. VNum (real p)) (q_priority query))
           \<longrightarrow> Some (priority d) = q_priority query)
      \<and> (truthy (opt_val VStr (q_labels query))
           \<longrightarrow> list_ex (\<lambda>l. l \<in> set (map trim (split_comma (the (q_labels query))))) (labels d))
      \<and> (truthy (opt_val VStr (q_search query))
           \<longrightarrow> textScore (the (q_search query)) d \<noteq> None))"

text \<open>Building the filter throws when \<open>new Types.ObjectId(query.project_id)\<close> does.\<close>

definition findAll_filter :: "(string \<Rightarrow> ObjectId option) \<Rightarrow> (string \<Rightarrow> task \<Rightarrow> real option) \<Rightarrow> string \<Rightarrow> TaskQueryDto \<Rightarrow> error + (task \<Rightarrow> bool)" where
  "findAll_filter toObjectId textScore teamId query =
     (if truthy (opt_val VStr (q_project_id query)) \<and> toObjectId (the (q_project_id query)) = None
      then Inl BSONError
      else Inr (findAll_matches toObjectId textScore teamId query))"

text \<open>
  The sort: by text score (highest first) when searching, else by \<open>status\<close> and then
  \<open>position\<close>, both ascending; the status strings compare as
  blocked < done < in_progress < todo.
\<close>

fun status_rank :: "TaskStatus \<Rightarrow> nat" where
  "status_rank BLOCKED = 0"
| "status_rank DONE = 1"
| "status_rank IN_PROGRESS = 2"
| "status_rank TODO = 3"

definition findAll_order :: "(string \<Rightarrow> task \<Rightarrow> real option) \<Rightarrow> TaskQueryDto \<Rightarrow> task \<Rightarrow> task \<Rightarrow> bool" where
  "findAll_order textScore query a b =
     (if truthy (opt_val VStr (q_search query))
      then (case (textScore (the (q_search query)) a, textScore (the (q_search query)) b) of
              (Some x, Some y) \<Rightarrow> y \<le> x
            | _ \<Rightarrow> True)
      else status_rank (status a) < status_rank (status b)
           \<or> (status a = status b \<and> position a \<le> position b))"

inductive findAll :: "(string \<Rightarrow> ObjectId option) \<Rightarrow> (string \<Rightarrow> task \<Rightarrow> real option) \<Rightarrow> task_collection \<Rightarrow> string \<Rightarrow> TaskQueryDto \<Rightarrow> error + task list \<Rightarrow> bool"
  for toObjectId textScore s teamId query where
  findAll_throws:
    "findAll_filter toObjectId textScore teamId query = Inl e
     \<Longrightarrow> findAll toObjectId textScore s teamId query (Inl e)"
| findAll_returns:
    "findAll_filter toObjectId textScore teamId query = Inr flt
     \<Longrightarrow> find_sort (docs s) flt (findAll_order textScore query) tasks
     \<Longrightarrow> findAll toObjectId textScore s teamId query (Inr tasks)"

section \<open>ProjectsService\<close>

text \<open>
  Projects are kept the same way. The name of a project is declared \<open>trim: true\<close>:
  Mongoose trims it when it builds a document, in \<open>$set\<close> and in the conditions of a
  query. As for tasks, \<open>created_at\<close> and \<open>updated_at\<close> are no paths of the schema and
  are never stored. The settings are kept as the DTO gives them, and the populated virtual
  \<open>task_count\<close> of the results is left out.

  The schema declares \<open>ProjectSchema.index({ team_id: 1, name: 1 }, { unique: true })\<close>,
  with no partial filter: the index covers soft-deleted projects as well. An insert, or an
  update that changes the indexed key of a document, is refused by the store with a
  duplicate key error (E11000) when another document of the collection holds the same
  \<open>team_id\<close> and \<open>name\<close>; the refused command was sent, it changes nothing.
\<close>

record ProjectSettingsDto =
  columns :: "string list option"
  visibility :: "string option"
  color :: "string option"

record project =
  p_oid :: ObjectId
  name :: string
  p_description :: "string option"
  p_team_id :: string
  p_created_by :: string
  settings :: "ProjectSettingsDto option"
  p_deleted_at :: "Date option"

record project_collection =
  p_docs :: "project list"
  p_writes :: nat

record CreateProjectDto =
  cp_name :: string
  cp_description :: "string option"
  cp_settings :: "ProjectSettingsDto option"

record UpdateProjectDto =
  up_name :: "string option"
  up_description :: "string option"
  up_settings :: "ProjectSettingsDto option"

text \<open>
  The validators that \<open>save()\<close> runs on a new project: the name is required and at most
  100 characters long, the description at most 1000, \<open>team_id\<close> and \<open>created_by\<close> are
  required and match \<open>/^[a-z0-9]{25}$/\<close>.
\<close>

definition validate_project :: "project \<Rightarrow> bool" where
  "validate_project p =
     (name p \<noteq> [] \<and> js_length (name p) \<le> 100
      \<and> (case p_description p of None \<Rightarrow> True | Some x \<Rightarrow> js_length x \<le> 1000)
      \<and> is_id25 (p_team_id p) \<and> is_id25 (p_created_by p))"

text \<open>
  \<open>index_key\<close> is the key of a project in the unique index, and \<open>index_taken ds i k\<close>
  says that a document of \<open>ds\<close> other than the one with \<open>_id\<close> \<open>i\<close> holds the key \<open>k\<close>.
\<close>

definition index_key :: "project \<Rightarrow> string \<times> string" where
  "index_key d = (p_team_id d, name d)"

definition index_taken :: "project list \<Rightarrow> ObjectId \<Rightarrow> string \<times> string \<Rightarrow> bool" where
  "index_taken ds i k = list_ex (\<lambda>d. p_oid d \<noteq> i \<and> index_key d = k) ds"

definition p_findByIdAndUpdate :: "ObjectId \<Rightarrow> (project \<Rightarrow> project) \<Rightarrow> project_collection \<Rightarrow> project_collection \<times> (error + project option)" where
  "p_findByIdAndUpdate i f s =
     (case find (\<lambda>d. p_oid d = i) (p_docs s) of
        None \<Rightarrow> (s\<lparr>p_writes := Suc (p_writes s)\<rparr>, Inr None)
      | Some d \<Rightarrow>
          if index_key (f d) \<noteq> index_key d \<and> index_taken (p_docs s) i (index_key (f d))
          then (s\<lparr>p_writes := Suc (p_writes s)\<rparr>, Inl DuplicateKeyError)
          else (\<lparr>p_docs = fst (update_first (\<lambda>d. p_oid d = i) f (p_docs s)),
                 p_writes = Suc (p_writes s)\<rparr>, Inr (Some (f d))))"

definition p_create :: "Date \<Rightarrow> ObjectId \<Rightarrow> project_collection \<Rightarrow> CreateProjectDto \<Rightarrow> string \<Rightarrow> string \<Rightarrow> project_collection \<times> (error + project)" where
  "p_create now new_id s dto teamId userId =
     (case find (\<lambda>d. name d = trim (cp_name dto) \<and> p_team_id d = teamId \<and> p_deleted_at d = None) (p_docs s) of
        Some existingProject \<Rightarrow> (s, Inl ConflictException)
      | None \<Rightarrow>
          let savedProject =
                \<lparr>p_oid = new_id, name = trim (cp_name dto),
                 p_description = map_option trim (cp_description dto),
                 p_team_id = teamId, p_created_by = userId, settings = cp_settings dto,
                 p_deleted_at = None\<rparr>
          in if \<not> validate_project savedProject then (s, Inl ValidationError)
             else if list_ex (\<lambda>d. p_oid d = new_id) (p_docs s)
                     \<or> index_taken (p_docs s) new_id (index_key savedProject)
             then (s\<lparr>p_writes := Suc (p_writes s)\<rparr>, Inl DuplicateKeyError)
             else (\<lparr>p_docs = p_docs s @ [savedProject], p_writes = Suc (p_writes s)\<rparr>,
                   Inr savedProject))"

definition p_findOne :: "(string \<Rightarrow> ObjectId option) \<Rightarrow> project_collection \<Rightarrow> string \<Rightarrow> string \<Rightarrow> error + project" where
  "p_findOne toObjectId s ident teamId =
     (case toObjectId ident of
        None \<Rightarrow> Inl NotFoundException
      | Some i \<Rightarrow>
          (case find (\<lambda>d. p_oid d = i \<and> p_team_id d = teamId \<and> p_deleted_at d = None) (p_docs s) of
             None \<Rightarrow> Inl NotFoundException
           | Some p \<Rightarrow> Inr p))"

text \<open>
  \<open>$set: {...updateProjectDto, updated_at}\<close>: the properties the DTO has are written, the
  name and the description through the trim setter; \<open>updated_at\<close> is dropped. Validators
  do not run on an update.
\<close>

definition p_update_doc :: "UpdateProjectDto \<Rightarrow> project \<Rightarrow> project" where
  "p_update_doc dto d =
     d\<lparr>name := (case up_name dto of None \<Rightarrow> name d | Some n \<Rightarrow> trim n),
       p_description := (case up_description dto of None \<Rightarrow> p_description d | Some x \<Rightarrow> Some (trim x)),
       settings := (case up_settings dto of None \<Rightarrow> settings d | Some x \<Rightarrow> Some x)\<rparr>"

definition p_update :: "(string \<Rightarrow> ObjectId option) \<Rightarrow> Date \<Rightarrow> project_collection \<Rightarrow> string \<Rightarrow> UpdateProjectDto \<Rightarrow> string \<Rightarrow> string \<Rightarrow> project_collection \<times> (error + project)" where
  "p_update toObjectId now s ident dto teamId userId =
     (case p_findOne toObjectId s ident teamId of
        Inl e \<Rightarrow> (s, Inl e)
      | Inr p \<Rightarrow>
          (case toObjectId ident of
             None \<Rightarrow> (s, Inl CastError)
           | Some i \<Rightarrow>
               if truthy (opt_val VStr (up_name dto)) \<and> up_name dto \<noteq> Some (name p)
                  \<and> find (\<lambda>d. name d = trim (the (up_name dto)) \<and> p_team_id d = teamId
                               \<and> p_oid d \<noteq> i \<and> p_deleted_at d = None) (p_docs s) \<noteq> None
               then (s, Inl ConflictException)
               else (case p_findByIdAndUpdate i (p_update_doc dto) s of
                       (s', Inl e) \<Rightarrow> (s', Inl e)
                     | (s', Inr None) \<Rightarrow> (s', Inl NotFoundException)
                     | (s', Inr (Some updatedProject)) \<Rightarrow> (s', Inr updatedProject))))"

definition p_remove :: "(string \<Rightarrow> ObjectId option) \<Rightarrow> Date \<Rightarrow> project_collection \<Rightarrow> string \<Rightarrow> string \<Rightarrow> string \<Rightarrow> project_collection \<times> (error + unit)" where
  "p_remove toObjectId now s ident teamId userId =
     (case p_findOne toObjectId s ident teamId of
        Inl e \<Rightarrow> (s, Inl e)
      | Inr p \<Rightarrow>
          (case toObjectId ident of
             None \<Rightarrow> (s, Inl CastError)
           | Some i \<Rightarrow>
               (case p_findByIdAndUpdate i (\<lambda>d. d\<lparr>p_deleted_at := Some now\<rparr>) s of
                  (s', Inl e) \<Rightarrow> (s', Inl e)
                | (s', Inr r) \<Rightarrow> (s', Inr ()))))"

definition p_restore :: "(string \<Rightarrow> ObjectId option) \<Rightarrow> Date \<Rightarrow> project_collection \<Rightarrow> string \<Rightarrow> string \<Rightarrow> string \<Rightarrow> project_collection \<times> (error + project)" where
  "p_restore toObjectId now s ident teamId userId =
     (case toObjectId ident of
        None \<Rightarrow> (s, Inl NotFoundException)
      | Some i \<Rightarrow>
          (case find (\<lambda>d. p_oid d = i \<and> p_team_id d = teamId \<and> p_deleted_at d \<noteq> None) (p_docs s) of
             None \<Rightarrow> (s, Inl NotFoundException)
           | Some p \<Rightarrow>
               (case find (\<lambda>d. name d = trim (name p) \<and> p_team_id d = teamId \<and> p_deleted_at d = None) (p_docs s) of
                  Some existingProject \<Rightarrow> (s, Inl ConflictException)
                | None \<Rightarrow>
                    (case p_findByIdAndUpdate i (\<lambda>d. d\<lparr>p_deleted_at := None\<rparr>) s of
                       (s', Inl e) \<Rightarrow> (s', Inl e)
                     | (s', Inr None) \<Rightarrow> (s', Inl TypeError)
                     | (s', Inr (Some restoredProject)) \<Rightarrow> (s', Inr restoredProject)))))"

text \<open>
  What the store keeps true of the collection: \<open>_id\<close> is unique, the key of the unique
  index is unique, and (by the setter) names are stored trimmed. \<open>p_reachable c s\<close>
  says that the service can build the collection \<open>s\<close> from the empty one.
\<close>

definition stored_ok :: "project_collection \<Rightarrow> bool" where
  "stored_ok s =
     (distinct (map p_oid (p_docs s)) \<and> distinct (map index_key (p_docs s))
      \<and> list_all (\<lambda>d. trim (name d) = name d) (p_docs s))"

inductive p_reachable :: "(string \<Rightarrow> ObjectId option) \<Rightarrow> project_collection \<Rightarrow> bool"
  for c :: "string \<Rightarrow> ObjectId option" where
  start: "p_reachable c \<lparr>p_docs = [], p_writes = 0\<rparr>"
| by_create: "p_reachable c s \<Longrightarrow> p_reachable c (fst (p_create now new_id s dto teamId userId))"
| by_update: "p_reachable c s \<Longrightarrow> p_reachable c (fst (p_update c now s ident dto teamId userId))"
| by_remove: "p_reachable c s \<Longrightarrow> p_reachable c (fst (p_remove c now s ident teamId userId))"
| by_restore: "p_reachable c s \<Longrightarrow> p_reachable c (fst (p_restore c now s ident teamId userId))"

section \<open>The requests the controllers route\<close>

text \<open>
  The two controllers hand each request to one method of their service. A request is the
  method with its arguments (and the clock reading and fresh \<open>_id\<close> it will use);
  \<open>handle\<close> runs it on the two collections and returns them with the exception thrown,
  if any. The listing methods, which cannot throw NotFound or Conflict and write nothing,
  are described by \<open>findAll\<close> and \<open>getKanbanBoard\<close> above.
\<close>

record service_state =
  tasks :: task_collection
  projects :: project_collection

datatype request =
    TaskCreate Date ObjectId CreateTaskDto string string
  | TaskFindOne string string
  | TaskUpdate Date string UpdateTaskDto string string
  | TaskRemove Date string string string
  | TaskRestore Date string string string
  | TaskUpdatePosition Date string real string string
  | ProjectCreate Date ObjectId CreateProjectDto string string
  | ProjectFindOne string string
  | ProjectUpdate Date string UpdateProjectDto string string
  | ProjectRemove Date string string string
  | ProjectRestore Date string string string

definition thrown :: "error + 'a \<Rightarrow> error option" where
  "thrown r = (case r of Inl e \<Rightarrow> Some e | Inr _ \<Rightarrow> None)"

fun handle :: "(string \<Rightarrow> ObjectId option) \<Rightarrow> service_state \<Rightarrow> request \<Rightarrow> service_state \<times> error option" where
  "handle c st (TaskCreate now new_id dto teamId userId) =
     (case create now new_id (tasks st) dto teamId userId of (s', r) \<Rightarrow> (st\<lparr>tasks := s'\<rparr>, thrown r))"
| "handle c st (TaskFindOne ident teamId) = (st, thrown (findOne c (tasks st) ident teamId))"
| "handle c st (TaskUpdate now ident dto teamId userId) =
     (case update c now (tasks st) ident dto teamId userId of (s', r) \<Rightarrow> (st\<lparr>tasks := s'\<rparr>, thrown r))"
| "handle c st (TaskRemove now ident teamId userId) =
     (case remove c now (tasks st) ident teamId userId of (s', r) \<Rightarrow> (st\<lparr>tasks := s'\<rparr>, thrown r))"
| "handle c st (TaskRestore now ident teamId userId) =
     (case restore c now (tasks st) ident teamId userId of (s', r) \<Rightarrow> (st\<lparr>tasks := s'\<rparr>, thrown r))"
| "handle c st (TaskUpdatePosition now ident newPosition teamId userId) =
     (case updatePosition c now (tasks st) ident newPosition teamId userId of
        (s', r) \<Rightarrow> (st\<lparr>tasks := s'\<rparr>, thrown r))"
| "handle c st (ProjectCreate now new_id dto teamId userId) =
     (case p_create now new_id (projects st) dto teamId userId of
        (s', r) \<Rightarrow> (st\<lparr>projects := s'\<rparr>, thrown r))"
| "handle c st (ProjectFindOne ident teamId) = (st, thrown (p_findOne c (projects st) ident teamId))"
| "handle c st (ProjectUpdate now ident dto teamId userId) =
     (case p_update c now (projects st) ident dto teamId userId of
        (s', r) \<Rightarrow> (st\<lparr>projects := s'\<rparr>, thrown r))"
| "handle c st (ProjectRemove now ident teamId userId) =
     (case p_remove c now (projects st) ident teamId userId of
        (s', r) \<Rightarrow> (st\<lparr>projects := s'\<rparr>, thrown r))"
| "handle c st (ProjectRestore now ident teamId userId) =
     (case p_restore c now (projects st) ident teamId userId of
        (s', r) \<Rightarrow> (st\<lparr>projects := s'\<rparr>, thrown r))"

section \<open>Example data\<close>

text \<open>
  Concrete inputs for the instances below: three id strings with the ObjectIds the driver
  reads from them, two teams, a user, and an active task of team A in status todo.
\<close>

definition id1 :: string where "id1 = ''650000000000000000000001''"
definition id2 :: string where "id2 = ''650000000000000000000002''"
definition id3 :: string where "id3 = ''650000000000000000000003''"

definition ex_toObjectId :: "string \<Rightarrow> ObjectId option" where
  "ex_toObjectId x =
     (if x = id1 then Some 1 else if x = id2 then Some 2 else if x = id3 then Some 3 else None)"

definition teamA :: string where "teamA = ''cmh5jwbxl000fubpcofky8vqa''"
definition teamB :: string where "teamB = ''cmh5jwbxl000fubpcofky8vqb''"
definition user1 :: string where "user1 = ''cmh5jwbxl000fubpcofky8vqu''"

definition ex_task :: task where
  "ex_task =
     \<lparr>oid = 1, title = ''A'', description = None, status = TODO, priority = 3,
      team_id = teamA, project_id = VUndefined, assignee_id = None, created_by = user1,
      labels = [], tags = [], due_date = None, start_date = None, estimated_hours = None,
      position = 1000, completed_at = None,
      history = [\<lparr>action = ''created'', user_id = user1, timestamp = 1000,
                  changes = [\<lparr>field = ''status'', old_value = VNull, new_value = VStr ''todo''\<rparr>]\<rparr>],
      deleted_at = None\<rparr>"

definition ex_entry :: TaskHistoryEntry where
  "ex_entry = \<lparr>action = ''updated'', user_id = user1, timestamp = 1500, changes = []\<rparr>"

text \<open>A task whose embedded history already holds 100 entries.\<close>

definition full_task :: task where
  "full_task = ex_task\<lparr>history := replicate 100 ex_entry\<rparr>"

definition ex_create_dto :: CreateTaskDto where
  "ex_create_dto =
     \<lparr>c_title = ''A'', c_description = None, c_status = None, c_priority = None,
      c_project_id = None, c_assignee_id = None, c_labels = None, c_tags = None,
      c_due_date = None, c_start_date = None, c_estimated_hours = None\<rparr>"

text \<open>A second task of team A and a task of team B.\<close>

definition ex_task2 :: task where
  "ex_task2 = ex_task\<lparr>oid := 2, title := ''B''\<rparr>"

definition ex_taskB :: task where
  "ex_taskB = ex_task\<lparr>oid := 3, title := ''C'', team_id := teamB\<rparr>"

definition no_textScore :: "string \<Rightarrow> task \<Rightarrow> real option" where
  "no_textScore q d = None"


definition x_dto :: CreateProjectDto where
  "x_dto = \<lparr>cp_name = ''X'', cp_description = None, cp_settings = None\<rparr>"

definition ex_project :: project where
  "ex_project =
     \<lparr>p_oid = 1, name = ''X'', p_description = None, p_team_id = teamA, p_created_by = user1,
      settings = None, p_deleted_at = None\<rparr>"

definition ex_projects :: project_collection where
  "ex_projects = \<lparr>p_docs = [ex_project], p_writes = 1\<rparr>"






definition ex_tasks :: task_collection where
  "ex_tasks = \<lparr>docs = [ex_task, ex_task2, ex_taskB], writes = 0\<rparr>"

text \<open>A task of team A in status done, alone and next to the active todo task.\<close>

definition done_task :: task where
  "done_task = ex_task\<lparr>oid := 2, status := DONE, completed_at := Some 1200\<rparr>"

definition ex_tasks_done :: task_collection where
  "ex_tasks_done = \<lparr>docs = [ex_task, done_task], writes = 0\<rparr>"

text \<open>
  Three todo tasks of team A inserted with the positions 3, 1 and 2, and a collection
  that holds two tasks with the same position.
\<close>

definition pos3 :: task where "pos3 = ex_task\<lparr>oid := 1, position := 3\<rparr>"
definition pos1 :: task where "pos1 = ex_task\<lparr>oid := 2, position := 1\<rparr>"
definition pos2 :: task where "pos2 = ex_task\<lparr>oid := 3, position := 2\<rparr>"

definition board_tasks :: task_collection where
  "board_tasks = \<lparr>docs = [pos3, pos1, pos2], writes = 0\<rparr>"

definition tied_tasks :: task_collection where
  "tied_tasks = \<lparr>docs = [ex_task, ex_task2], writes = 0\<rparr>"

section \<open>Basic facts about the store operations\<close>

lemma find_SomeD: "find P xs = Some x \<Longrightarrow> P x \<and> x \<in> set xs"
  by (induction xs) (auto split: if_splits)

lemma find_unique_key:
  "distinct (map k xs) \<Longrightarrow> t \<in> set xs \<Longrightarrow>
   find (\<lambda>d. k d = k t \<and> Q d) xs = (if Q t then Some t else None)"
  by (induction xs) (auto simp: image_iff find_None_iff)

lemma update_first_none: "(\<forall>x\<in>set xs. \<not> P x) \<Longrightarrow> update_first P f xs = (xs, None)"
  by (induction xs) auto

lemma update_first_some: "x \<in> set xs \<Longrightarrow> P x \<Longrightarrow> \<exists>ys u. update_first P f xs = (ys, Some u)"
  by (induction xs) (auto split: prod.splits)

text \<open>Where the key is unique, the update reaches exactly the document with that key.\<close>

lemma update_first_unique_key:
  "distinct (map k xs) \<Longrightarrow> t \<in> set xs \<Longrightarrow>
   update_first (\<lambda>d. k d = k t) f xs = (map (\<lambda>d. if k d = k t then f d else d) xs, Some (f t))"
proof (induction xs)
  case Nil
  then show ?case by simp
next
  case (Cons x xs)
  show ?case
  proof (cases "k x = k t")
    case True
    with Cons.prems have "x = t" by (auto simp: image_iff)
    moreover from Cons.prems True have "\<forall>d\<in>set xs. k d \<noteq> k t" by (auto simp: image_iff)
    then have "map (\<lambda>d. if k d = k t then f d else d) xs = xs" by (induction xs) auto
    ultimately show ?thesis by simp
  next
    case False
    with Cons show ?thesis by auto
  qed
qed

text \<open>Documents with the same unique key are the same document.\<close>

lemma same_key_same_doc:
  "distinct (map k xs) \<Longrightarrow> x \<in> set xs \<Longrightarrow> y \<in> set xs \<Longrightarrow> k x = k y \<Longrightarrow> x = y"
  by (auto simp: distinct_map dest: inj_onD)

lemma map_upd_keeps_oids:
  assumes "\<And>d. k (f d) = k d"
  shows "map k (map (\<lambda>d. if k d = i then f d else d) ds) = map k ds"
  using assms by (induction ds) auto

lemma status_str_inj: "status_str a = status_str b \<longleftrightarrow> a = b"
  by (cases a; cases b) simp_all

lemma findOne_InrD:
  "findOne c s ident teamId = Inr t \<Longrightarrow>
   c ident = Some (oid t) \<and> t \<in> set (docs s) \<and> team_id t = teamId \<and> deleted_at t = None"
  by (auto simp: findOne_def split: option.splits dest: find_SomeD)

text \<open>\<open>$set\<close> of a DTO never touches the identity, the team, the history or the two markers.\<close>

lemma apply_set_keeps:
  "oid (apply_set e d) = oid d \<and> team_id (apply_set e d) = team_id d
   \<and> history (apply_set e d) = history d \<and> deleted_at (apply_set e d) = deleted_at d
   \<and> completed_at (apply_set e d) = completed_at d"
  by (cases "(e, d)" rule: apply_set.cases) simp_all

lemma fold_apply_set_keeps_all:
  "oid (fold apply_set dto d) = oid d \<and> team_id (fold apply_set dto d) = team_id d
   \<and> history (fold apply_set dto d) = history d
   \<and> deleted_at (fold apply_set dto d) = deleted_at d
   \<and> completed_at (fold apply_set dto d) = completed_at d"
  by (induction dto arbitrary: d) (simp_all add: apply_set_keeps)

lemma fold_apply_set_keeps:
  "oid (fold apply_set dto d) = oid d"
  "team_id (fold apply_set dto d) = team_id d"
  "history (fold apply_set dto d) = history d"
  "deleted_at (fold apply_set dto d) = deleted_at d"
  "completed_at (fold apply_set dto d) = completed_at d"
  using fold_apply_set_keeps_all[of dto d] by simp_all

lemma stored_change_field: "map field (map stored_change chs) = map field chs"
  by (simp add: stored_change_def comp_def)

lemma update_doc_history:
  "history (update_doc now t dto userId d) = history d @
     [\<lparr>action = action_of t dto, user_id = userId, timestamp = now,
       changes = map stored_change (changes_of t dto)\<rparr>]"
  by (simp add: update_doc_def Let_def fold_apply_set_keeps)

lemma changes_of_fields:
  "map field (changes_of t dto) =
     map key_of (filter (\<lambda>e. strict_ne (new_val e) (task_get t (key_of e)) \<and> new_val e \<noteq> VUndefined) dto)"
  by (simp add: changes_of_def comp_def)

text \<open>
  A successful \<open>update\<close>, on a collection with unique \<open>_id\<close>: one write, which
  replaces the task that \<open>findOne\<close> found.
\<close>

lemma update_ok:
  assumes "findOne c s ident teamId = Inr t" "distinct (map oid (docs s))"
  shows "update c now s ident dto teamId userId =
     (\<lparr>docs = map (\<lambda>d. if oid d = oid t then update_doc now t dto userId d else d) (docs s),
       writes = Suc (writes s)\<rparr>, Inr (update_doc now t dto userId t))"
  using assms findOne_InrD[OF assms(1)]
  by (simp add: update_def findByIdAndUpdate_def update_first_unique_key)

lemma dto_get_unique:
  assumes "e \<in> set dto" "\<forall>x\<in>set dto. key_of x = key_of e \<longrightarrow> x = e"
  shows "dto_get dto (key_of e) = new_val e"
proof (cases "find (\<lambda>x. key_of x = key_of e) dto")
  case None
  with assms(1) show ?thesis by (auto simp: find_None_iff)
next
  case (Some x)
  from find_SomeD[OF Some] assms(2) have "x = e" by blast
  with Some show ?thesis by (simp add: dto_get_def)
qed

lemma ids_distinct:
  "id1 \<noteq> id2" "id1 \<noteq> id3" "id2 \<noteq> id3" "id2 \<noteq> id1" "id3 \<noteq> id1" "id3 \<noteq> id2"
  by (simp_all add: id1_def id2_def id3_def)

lemma teams_distinct: "teamA \<noteq> teamB" "teamB \<noteq> teamA"
  by (simp_all add: teamA_def teamB_def)

text \<open>The strings of the examples: nothing to trim, one character each, ids of the pattern.\<close>

lemma trim_plain: "trim ''A'' = ''A''" "trim ''X'' = ''X''" "trim ''Y'' = ''Y''"
  by (simp_all add: trim_def drop_leading.simps white_space_def)

lemma js_length_plain: "js_length ''A'' = 1" "js_length ''X'' = 1" "js_length ''Y'' = 1"
  by (simp_all add: js_length_def)

lemma ids_valid: "is_id25 teamA" "is_id25 teamB" "is_id25 user1"
  by (simp_all add: is_id25_def teamA_def teamB_def user1_def)

section \<open>C1: the history cap\<close>

text \<open>
  \<open>addHistoryEntry\<close> is the one place that enforces the cap: on a history of 100 entries
  it drops the oldest and keeps the other 99, in their order, before the new one.
\<close>

theorem addHistoryEntry_cap:
  assumes "length (history t) = 100"
  shows "history (addHistoryEntry now act userId chs t) =
           tl (history t) @ [\<lparr>action = act, user_id = userId, timestamp = now, changes = chs\<rparr>]"
  using assms by (cases "history t") (simp_all add: addHistoryEntry_def Let_def)

lemma addHistoryEntry_bounded:
  "length (history t) \<le> 100 \<Longrightarrow> length (history (addHistoryEntry now act userId chs t)) \<le> 100"
  by (simp add: addHistoryEntry_def Let_def)

text \<open>
  C1. The claim: an operation that appends a history entry to a task whose history holds
  100 entries (update, remove, restore) leaves the history at length 100. The service
  never calls \<open>addHistoryEntry\<close>; its three operations push with \<open>$push\<close> and nothing
  trims. On the task \<open>full_task\<close>, with 100 entries, \<open>update\<close> and \<open>remove\<close> leave
  101 entries, and so does \<open>restore\<close> on the same task once deleted.
\<close>

theorem service_push_exceeds_cap:
  "length (history full_task) = 100
   \<and> map (\<lambda>d. length (history d))
        (docs (fst (update ex_toObjectId 2000 \<lparr>docs = [full_task], writes = 0\<rparr> id1
                     [Title (Some ''B'')] teamA user1))) = [101]
   \<and> map (\<lambda>d. length (history d))
        (docs (fst (remove ex_toObjectId 2000 \<lparr>docs = [full_task], writes = 0\<rparr> id1 teamA user1))) = [101]
   \<and> map (\<lambda>d. length (history d))
        (docs (fst (restore ex_toObjectId 2000
                     \<lparr>docs = [full_task\<lparr>deleted_at := Some 1800\<rparr>], writes = 0\<rparr> id1 teamA user1))) = [101]"
proof (intro conjI)
  show "length (history full_task) = 100"
    by (simp add: full_task_def)
  show "map (\<lambda>d. length (history d))
        (docs (fst (update ex_toObjectId 2000 \<lparr>docs = [full_task], writes = 0\<rparr> id1
                     [Title (Some ''B'')] teamA user1))) = [101]"
    by (simp add: update_def findOne_def ex_toObjectId_def findByIdAndUpdate_def update_doc_def
        full_task_def ex_task_def Let_def)
  show "map (\<lambda>d. length (history d))
        (docs (fst (remove ex_toObjectId 2000 \<lparr>docs = [full_task], writes = 0\<rparr> id1 teamA user1))) = [101]"
    by (simp add: remove_def findOne_def ex_toObjectId_def findByIdAndUpdate_def remove_doc_def
        full_task_def ex_task_def)
  show "map (\<lambda>d. length (history d))
        (docs (fst (restore ex_toObjectId 2000
                     \<lparr>docs = [full_task\<lparr>deleted_at := Some 1800\<rparr>], writes = 0\<rparr> id1 teamA user1))) = [101]"
    by (simp add: restore_def ex_toObjectId_def findByIdAndUpdate_def restore_doc_def
        full_task_def ex_task_def)
qed

section \<open>C2: one history entry for a patch of three fields\<close>

lemma three_keys:
  assumes "mset dto = {#Status (Some st), Priority (Some p), Assignee_id (Some a)#}"
  shows "set dto = {Status (Some st), Priority (Some p), Assignee_id (Some a)}" "length dto = 3"
proof -
  have "set_mset (mset dto) = {Status (Some st), Priority (Some p), Assignee_id (Some a)}"
    unfolding assms by simp
  then show "set dto = {Status (Some st), Priority (Some p), Assignee_id (Some a)}" by simp
  have "size (mset dto) = 3" unfolding assms by simp
  then show "length dto = 3" by simp
qed

lemma three_keys_all_changed:
  assumes setd: "set dto = {Status (Some st), Priority (Some p), Assignee_id (Some a)}"
    and ch: "st \<noteq> status t" "p \<noteq> priority t" "Some a \<noteq> assignee_id t"
    and e: "e \<in> set dto"
  shows "strict_ne (new_val e) (task_get t (key_of e)) \<and> new_val e \<noteq> VUndefined"
proof -
  from e setd consider "e = Status (Some st)" | "e = Priority (Some p)" | "e = Assignee_id (Some a)"
    by blast
  then show ?thesis
  proof cases
    case 1
    then show ?thesis using ch(1) by (simp add: strict_ne_def task_get_def opt_val_def status_str_inj)
  next
    case 2
    then show ?thesis using ch(2) by (simp add: strict_ne_def task_get_def opt_val_def)
  next
    case 3
    then show ?thesis using ch(3)
      by (cases "assignee_id t") (simp_all add: strict_ne_def task_get_def opt_val_def)
  qed
qed

lemma three_keys_action:
  assumes setd: "set dto = {Status (Some st), Priority (Some p), Assignee_id (Some a)}"
    and ch: "st \<noteq> status t"
  shows "action_of t dto = ''status_changed''"
proof -
  have "dto_get dto (key_of (Status (Some st))) = new_val (Status (Some st))"
    by (rule dto_get_unique) (use setd in auto)
  then have st_get: "dto_get dto ''status'' = VStr (status_str st)"
    by (simp add: opt_val_def)
  have "status_str st \<noteq> []" by (cases st) simp_all
  then show ?thesis
    using ch by (simp add: action_of_def st_get strict_ne_def task_get_def status_str_inj)
qed

text \<open>
  C2. For an active task \<open>t\<close> that \<open>findOne\<close> finds (in a collection with unique
  \<open>_id\<close>) and a DTO whose properties are \<open>status\<close>, \<open>priority\<close> and
  \<open>assignee_id\<close>, in any order, each with a value that differs from the task's,
  \<open>update\<close> succeeds and the stored task's history is the old one followed by exactly
  one entry; that entry has three change records, one for each of the three fields, and
  the action \<open>status_changed\<close>, which the precedence puts before \<open>assigned\<close> and
  \<open>updated\<close>.
\<close>

theorem update_three_fields:
  assumes found: "findOne c s ident teamId = Inr t"
    and uniq: "distinct (map oid (docs s))"
    and dto: "mset dto = {#Status (Some st), Priority (Some p), Assignee_id (Some a)#}"
    and ch: "st \<noteq> status t" "p \<noteq> priority t" "Some a \<noteq> assignee_id t"
  shows "\<exists>s' u e. update c now s ident dto teamId userId = (s', Inr u)
           \<and> u \<in> set (docs s')
           \<and> history u = history t @ [e]
           \<and> length (changes e) = 3
           \<and> set (map field (changes e)) = {''status'', ''priority'', ''assignee_id''}
           \<and> action e = ''status_changed''"
proof -
  note setd = three_keys(1)[OF dto] and len = three_keys(2)[OF dto]
  let ?ok = "\<lambda>e. strict_ne (new_val e) (task_get t (key_of e)) \<and> new_val e \<noteq> VUndefined"
  have "\<forall>e\<in>set dto. ?ok e"
    using three_keys_all_changed[OF setd ch] by blast
  then have flt: "filter ?ok dto = dto" by simp
  have act: "action_of t dto = ''status_changed''"
    by (rule three_keys_action[OF setd ch(1)])
  have chg1: "length (changes_of t dto) = 3"
    by (simp add: changes_of_def flt len)
  have "set (map field (changes_of t dto)) = key_of ` set dto"
    by (simp add: changes_of_fields flt)
  then have chg2: "set (map field (changes_of t dto)) = {''status'', ''priority'', ''assignee_id''}"
    unfolding setd by simp
  let ?u = "update_doc now t dto userId t"
  let ?e = "\<lparr>action = action_of t dto, user_id = userId, timestamp = now,
             changes = map stored_change (changes_of t dto)\<rparr>"
  let ?s' = "\<lparr>docs = map (\<lambda>d. if oid d = oid t then update_doc now t dto userId d else d) (docs s),
       writes = Suc (writes s)\<rparr>"
  have hist: "history ?u = history t @ [?e]"
    by (rule update_doc_history)
  from findOne_InrD[OF found] have tin: "t \<in> set (docs s)" by simp
  have "(\<lambda>d. if oid d = oid t then update_doc now t dto userId d else d) t = ?u" by simp
  with tin have "?u \<in> set (map (\<lambda>d. if oid d = oid t then update_doc now t dto userId d else d) (docs s))"
    unfolding set_map by (rule rev_image_eqI[OF _ sym])
  then have uin: "?u \<in> set (docs ?s')" by simp
  have e1: "length (changes ?e) = 3" using chg1 by simp
  have "map field (changes ?e) = map field (changes_of t dto)"
    using stored_change_field[of "changes_of t dto"] by simp
  then have e2: "set (map field (changes ?e)) = {''status'', ''priority'', ''assignee_id''}"
    using chg2 by (simp only:)
  have e3: "action ?e = ''status_changed''" using act by simp
  show ?thesis
    apply (rule exI[of _ ?s'], rule exI[of _ ?u], rule exI[of _ ?e])
    apply (intro conjI)
         apply (rule update_ok[OF found uniq])
        apply (rule uin)
       apply (rule hist)
      apply (rule e1)
     apply (rule e2)
    apply (rule e3)
    done
qed

theorem update_three_fields_witness:
  "findOne ex_toObjectId \<lparr>docs = [ex_task], writes = 0\<rparr> id1 teamA = Inr ex_task
   \<and> (\<exists>s' u e. update ex_toObjectId 2000 \<lparr>docs = [ex_task], writes = 0\<rparr> id1
                    [Priority (Some 1), Status (Some DONE), Assignee_id (Some user1)] teamA user1
                  = (s', Inr u)
           \<and> u \<in> set (docs s')
           \<and> history u = history ex_task @ [e]
           \<and> length (changes e) = 3
           \<and> set (map field (changes e)) = {''status'', ''priority'', ''assignee_id''}
           \<and> action e = ''status_changed'')"
proof -
  have f: "findOne ex_toObjectId \<lparr>docs = [ex_task], writes = 0\<rparr> id1 teamA = Inr ex_task"
    by (simp add: findOne_def ex_toObjectId_def ex_task_def)
  have u: "distinct (map oid (docs \<lparr>docs = [ex_task], writes = 0\<rparr>))" by simp
  have m: "mset [Priority (Some 1), Status (Some DONE), Assignee_id (Some user1)]
           = {#Status (Some DONE), Priority (Some 1), Assignee_id (Some user1)#}" by simp
  have c1: "DONE \<noteq> status ex_task" and c2: "1 \<noteq> priority ex_task"
    and c3: "Some user1 \<noteq> assignee_id ex_task"
    by (simp_all add: ex_task_def)
  note r = update_three_fields[OF f u m c1 c2 c3, of 2000 user1]
  show ?thesis by (rule conjI[OF f r])
qed

section \<open>C3: the completion timestamp\<close>

text \<open>What holds of \<open>update\<close>: it sets \<open>completed_at\<close> when the DTO's status is done
  and the task has none, and otherwise leaves it as it is; no operation clears it.\<close>

lemma update_doc_completed_at:
  "completed_at (update_doc now t dto userId t) =
     (if dto_get dto ''status'' = VStr ''done'' \<and> completed_at t = None then Some now
      else completed_at t)"
  by (simp add: update_doc_def Let_def fold_apply_set_keeps)

text \<open>
  C3. The claim: \<open>completed_at\<close> is set if and only if the task has held the status
  done. \<open>create\<close> accepts a status, and the pre-save hook stamps \<open>completed_at\<close> only on a
  document that is not new: a task created with status done is stored in status done
  with no \<open>completed_at\<close>.
\<close>

theorem create_done_without_completed_at:
  "map (\<lambda>d. (status d, completed_at d))
     (docs (fst (create 2000 1 \<lparr>docs = [], writes = 0\<rparr>
                  (ex_create_dto\<lparr>c_status := Some DONE\<rparr>) teamA user1))) = [(DONE, None)]"
  by (simp add: create_def pre_save_def validate_task_def ex_create_dto_def Let_def
      trim_plain js_length_plain ids_valid)

section \<open>C4: one history entry for every mutation\<close>

text \<open>
  C4. The claim: every mutating operation that changes a tracked field, \<open>updatePosition\<close>
  among them, appends exactly one history entry. \<open>updatePosition\<close> sets \<open>position\<close>
  and pushes nothing: moving \<open>ex_task\<close> from position 1000 to 500
  changes the position and leaves the history at its one entry. (\<open>update\<close> with the
  property \<open>position\<close> does record the same change.)
\<close>

theorem updatePosition_appends_nothing:
  "map (\<lambda>d. (position d, length (history d))) [ex_task] = [(1000, 1)]
   \<and> map (\<lambda>d. (position d, length (history d)))
        (docs (fst (updatePosition ex_toObjectId 2000 \<lparr>docs = [ex_task], writes = 0\<rparr> id1 500 teamA user1)))
       = [(500, 1)]
   \<and> map (\<lambda>d. (position d, length (history d)))
        (docs (fst (update ex_toObjectId 2000 \<lparr>docs = [ex_task], writes = 0\<rparr> id1
                     [Position (Some 500)] teamA user1)))
       = [(500, 2)]"
proof (intro conjI)
  show "map (\<lambda>d. (position d, length (history d))) [ex_task] = [(1000, 1)]"
    by (simp add: ex_task_def)
  show "map (\<lambda>d. (position d, length (history d)))
        (docs (fst (updatePosition ex_toObjectId 2000 \<lparr>docs = [ex_task], writes = 0\<rparr> id1 500 teamA user1)))
       = [(500, 1)]"
    by (simp add: updatePosition_def findOne_def ex_toObjectId_def findByIdAndUpdate_def ex_task_def)
  show "map (\<lambda>d. (position d, length (history d)))
        (docs (fst (update ex_toObjectId 2000 \<lparr>docs = [ex_task], writes = 0\<rparr> id1
                     [Position (Some 500)] teamA user1)))
       = [(500, 2)]"
    by (simp add: update_def findOne_def ex_toObjectId_def findByIdAndUpdate_def update_doc_def
        ex_task_def Let_def)
qed

section \<open>C8: NotFound for a missing, foreign or deleted task\<close>

lemma findOne_not_found:
  assumes "\<forall>d\<in>set (docs s). c ident = Some (oid d) \<longrightarrow> team_id d \<noteq> teamId \<or> deleted_at d \<noteq> None"
  shows "findOne c s ident teamId = Inl NotFoundException"
proof (cases "c ident")
  case None
  then show ?thesis by (simp add: findOne_def)
next
  case (Some i)
  have "find (\<lambda>d. oid d = i \<and> team_id d = teamId \<and> deleted_at d = None) (docs s) = None"
    unfolding find_None_iff using assms Some by auto
  with Some show ?thesis by (simp add: findOne_def)
qed

text \<open>
  C8. Let no stored task match the id, the team and the active state together: the id
  string is no ObjectId, or no task has that \<open>_id\<close>, or every task that has it belongs
  to another team or is soft-deleted. Then \<open>findOne\<close> throws NotFound, and
  \<open>updatePosition\<close> throws NotFound and leaves the collection as it was, write count
  included.
\<close>

theorem not_found_for_missing_foreign_or_deleted:
  assumes "\<forall>d\<in>set (docs s). c ident = Some (oid d) \<longrightarrow> team_id d \<noteq> teamId \<or> deleted_at d \<noteq> None"
  shows "findOne c s ident teamId = Inl NotFoundException
         \<and> updatePosition c now s ident newPosition teamId userId = (s, Inl NotFoundException)"
  using findOne_not_found[of s c ident teamId, OF assms] by (simp add: updatePosition_def)

theorem not_found_witness:
  "findOne ex_toObjectId ex_tasks id3 teamA = Inl NotFoundException
   \<and> updatePosition ex_toObjectId 2000 ex_tasks id3 500 teamA user1 = (ex_tasks, Inl NotFoundException)"
proof -
  have prem: "\<forall>d\<in>set (docs ex_tasks). ex_toObjectId id3 = Some (oid d)
                \<longrightarrow> team_id d \<noteq> teamA \<or> deleted_at d \<noteq> None"
    by (simp add: ex_tasks_def ex_task_def ex_task2_def ex_taskB_def ex_toObjectId_def
        ids_distinct teams_distinct)
  show ?thesis
    by (rule not_found_for_missing_foreign_or_deleted[of ex_tasks ex_toObjectId id3 teamA, OF prem])
qed

section \<open>C9: a rejected request writes nothing\<close>

lemma findByIdAndUpdate_after_findOne:
  assumes "findOne c s ident teamId = Inr t" "c ident = Some i"
  shows "\<exists>s' u. findByIdAndUpdate i f s = (s', Some u)"
proof -
  from findOne_InrD[OF assms(1)] assms(2) have "t \<in> set (docs s)" "oid t = i" by simp_all
  from update_first_some[OF this(1), of "\<lambda>d. oid d = i" f] this(2)
  obtain ys u where "update_first (\<lambda>d. oid d = i) f (docs s) = (ys, Some u)" by blast
  then show ?thesis by (simp add: findByIdAndUpdate_def)
qed

lemma update_rejected:
  assumes "update c now s ident dto teamId userId = (s', Inl e)"
    "e = NotFoundException \<or> e = ConflictException"
  shows "s' = s"
proof (cases "findOne c s ident teamId")
  case (Inl x)
  with assms show ?thesis by (simp add: update_def)
next
  case (Inr t)
  from findOne_InrD[OF Inr] have ci: "c ident = Some (oid t)" by simp
  from findByIdAndUpdate_after_findOne[OF Inr ci]
  obtain s1 u where "findByIdAndUpdate (oid t) (update_doc now t dto userId) s = (s1, Some u)" by blast
  with assms Inr ci show ?thesis by (auto simp: update_def split: if_splits)
qed

lemma remove_rejected:
  assumes "remove c now s ident teamId userId = (s', Inl e)"
  shows "s' = s"
  using assms by (auto simp: remove_def split: sum.splits option.splits)

lemma restore_rejected:
  assumes "restore c now s ident teamId userId = (s', Inl e)"
    "e = NotFoundException \<or> e = ConflictException"
  shows "s' = s"
  using assms by (auto simp: restore_def split: sum.splits option.splits prod.splits)

lemma updatePosition_rejected:
  assumes "updatePosition c now s ident newPosition teamId userId = (s', Inl e)"
    "e = NotFoundException \<or> e = ConflictException"
  shows "s' = s"
  using assms by (auto simp: updatePosition_def split: sum.splits option.splits prod.splits)

lemma create_rejected:
  assumes "create now new_id s dto teamId userId = (s', Inl e)"
    "e = NotFoundException \<or> e = ConflictException"
  shows "s' = s"
  using assms by (auto simp: create_def Let_def split: if_splits)

lemma p_findOne_InrD:
  "p_findOne c s ident teamId = Inr p \<Longrightarrow>
   c ident = Some (p_oid p) \<and> p \<in> set (p_docs s) \<and> p_team_id p = teamId \<and> p_deleted_at p = None"
  by (auto simp: p_findOne_def split: option.splits dest: find_SomeD)

text \<open>The store refuses an update of a project only for the unique index.\<close>

lemma p_findByIdAndUpdate_Inl:
  "p_findByIdAndUpdate i f s = (s', Inl e) \<Longrightarrow> e = DuplicateKeyError"
  by (auto simp: p_findByIdAndUpdate_def split: option.splits if_splits)

lemma p_findByIdAndUpdate_found:
  assumes "p \<in> set (p_docs s)" "p_oid p = i"
  shows "p_findByIdAndUpdate i f s \<noteq> (s', Inr None)"
proof -
  from assms have "find (\<lambda>d. p_oid d = i) (p_docs s) \<noteq> None"
    by (auto simp: find_None_iff)
  then show ?thesis
    by (auto simp: p_findByIdAndUpdate_def split: option.splits if_splits)
qed

lemma p_create_rejected:
  assumes "p_create now new_id s dto teamId userId = (s', Inl e)"
    "e = NotFoundException \<or> e = ConflictException"
  shows "s' = s"
  using assms by (auto simp: p_create_def Let_def split: option.splits if_splits)

lemma p_update_rejected:
  assumes "p_update c now s ident dto teamId userId = (s', Inl e)"
    "e = NotFoundException \<or> e = ConflictException"
  shows "s' = s"
proof (cases "p_findOne c s ident teamId")
  case (Inl x)
  with assms show ?thesis by (simp add: p_update_def)
next
  case (Inr p)
  from p_findOne_InrD[OF Inr] have ci: "c ident = Some (p_oid p)" and pin: "p \<in> set (p_docs s)"
    by simp_all
  obtain s1 r where r: "p_findByIdAndUpdate (p_oid p) (p_update_doc dto) s = (s1, r)"
    by (cases "p_findByIdAndUpdate (p_oid p) (p_update_doc dto) s")
  show ?thesis
  proof (cases r)
    case (Inl e')
    with r have "e' = DuplicateKeyError" by (simp add: p_findByIdAndUpdate_Inl)
    with assms Inr ci r Inl show ?thesis by (auto simp: p_update_def split: if_splits)
  next
    case (Inr x)
    with r p_findByIdAndUpdate_found[OF pin refl, of "p_update_doc dto" s1]
    obtain u where "x = Some u" by (cases x) auto
    with assms \<open>p_findOne c s ident teamId = Inr p\<close> ci r Inr show ?thesis
      by (auto simp: p_update_def split: if_splits)
  qed
qed

lemma p_remove_rejected:
  assumes "p_remove c now s ident teamId userId = (s', Inl e)"
    "e = NotFoundException \<or> e = ConflictException"
  shows "s' = s"
proof (cases "p_findOne c s ident teamId")
  case (Inl x)
  with assms show ?thesis by (simp add: p_remove_def)
next
  case (Inr p)
  from p_findOne_InrD[OF Inr] have ci: "c ident = Some (p_oid p)" by simp
  obtain s1 r where r: "p_findByIdAndUpdate (p_oid p) (\<lambda>d. d\<lparr>p_deleted_at := Some now\<rparr>) s = (s1, r)"
    by (cases "p_findByIdAndUpdate (p_oid p) (\<lambda>d. d\<lparr>p_deleted_at := Some now\<rparr>) s")
  show ?thesis
  proof (cases r)
    case (Inl e')
    with r have "e' = DuplicateKeyError" by (simp add: p_findByIdAndUpdate_Inl)
    with assms Inr ci r Inl show ?thesis by (auto simp: p_remove_def)
  next
    case (Inr x)
    with assms \<open>p_findOne c s ident teamId = Inr p\<close> ci r show ?thesis
      by (auto simp: p_remove_def)
  qed
qed

lemma p_restore_rejected:
  assumes "p_restore c now s ident teamId userId = (s', Inl e)"
    "e = NotFoundException \<or> e = ConflictException"
  shows "s' = s"
  using assms
  by (auto simp: p_restore_def split: sum.splits option.splits prod.splits
      dest: p_findByIdAndUpdate_Inl)

lemma thrown_Some: "thrown r = Some e \<longleftrightarrow> r = Inl e"
  by (cases r) (simp_all add: thrown_def)

text \<open>
  C9. Whatever the request, if it is rejected with NotFound or Conflict then the two
  collections are what they were before it, and so are their write counts: no mutating
  call was issued to the store.
\<close>

theorem rejected_request_writes_nothing:
  assumes "handle c st rq = (st', Some e)" "e = NotFoundException \<or> e = ConflictException"
  shows "st' = st"
proof (cases rq)
  case (TaskCreate now new_id dto teamId userId)
  with assms show ?thesis
    by (auto simp: thrown_Some split: prod.splits dest: create_rejected)
next
  case (TaskFindOne ident teamId)
  with assms(1) show ?thesis by simp
next
  case (TaskUpdate now ident dto teamId userId)
  with assms show ?thesis
    by (auto simp: thrown_Some split: prod.splits dest: update_rejected)
next
  case (TaskRemove now ident teamId userId)
  with assms(1) show ?thesis
    by (auto simp: thrown_Some split: prod.splits dest: remove_rejected)
next
  case (TaskRestore now ident teamId userId)
  with assms show ?thesis
    by (auto simp: thrown_Some split: prod.splits dest: restore_rejected)
next
  case (TaskUpdatePosition now ident newPosition teamId userId)
  with assms show ?thesis
    by (auto simp: thrown_Some split: prod.splits dest: updatePosition_rejected)
next
  case (ProjectCreate now new_id dto teamId userId)
  with assms show ?thesis
    by (auto simp: thrown_Some split: prod.splits dest: p_create_rejected)
next
  case (ProjectFindOne ident teamId)
  with assms(1) show ?thesis by simp
next
  case (ProjectUpdate now ident dto teamId userId)
  with assms show ?thesis
    by (auto simp: thrown_Some split: prod.splits dest: p_update_rejected)
next
  case (ProjectRemove now ident teamId userId)
  with assms show ?thesis
    by (auto simp: thrown_Some split: prod.splits dest: p_remove_rejected)
next
  case (ProjectRestore now ident teamId userId)
  with assms show ?thesis
    by (auto simp: thrown_Some split: prod.splits dest: p_restore_rejected)
qed

theorem rejected_request_witness:
  "handle ex_toObjectId \<lparr>tasks = ex_tasks, projects = ex_projects\<rparr>
      (TaskUpdate 2000 id3 [Title (Some ''Z'')] teamA user1)
     = (\<lparr>tasks = ex_tasks, projects = ex_projects\<rparr>, Some NotFoundException)
   \<and> handle ex_toObjectId \<lparr>tasks = ex_tasks, projects = ex_projects\<rparr>
      (ProjectCreate 2000 2 x_dto teamA user1)
     = (\<lparr>tasks = ex_tasks, projects = ex_projects\<rparr>, Some ConflictException)"
proof -
  let ?st = "\<lparr>tasks = ex_tasks, projects = ex_projects\<rparr>"
  let ?r1 = "TaskUpdate 2000 id3 [Title (Some ''Z'')] teamA user1"
  let ?r2 = "ProjectCreate 2000 2 x_dto teamA user1"
  have a: "snd (handle ex_toObjectId ?st ?r1) = Some NotFoundException"
    by (simp add: update_def findOne_def ex_tasks_def ex_task_def ex_task2_def ex_taskB_def
        ex_toObjectId_def ids_distinct teams_distinct thrown_def split: prod.splits)
  have b: "snd (handle ex_toObjectId ?st ?r2) = Some ConflictException"
    by (simp add: p_create_def ex_projects_def ex_project_def x_dto_def trim_plain thrown_def)
  have a': "handle ex_toObjectId ?st ?r1 = (fst (handle ex_toObjectId ?st ?r1), Some NotFoundException)"
    using a by (metis prod.collapse)
  have b': "handle ex_toObjectId ?st ?r2 = (fst (handle ex_toObjectId ?st ?r2), Some ConflictException)"
    using b by (metis prod.collapse)
  from rejected_request_writes_nothing[OF a'] have "fst (handle ex_toObjectId ?st ?r1) = ?st" by simp
  moreover from rejected_request_writes_nothing[OF b'] have "fst (handle ex_toObjectId ?st ?r2) = ?st" by simp
  ultimately show ?thesis using a' b' by simp
qed

section \<open>Facts about the filter of findAll\<close>

lemma findAll_InrD:
  assumes "findAll c ts s teamId q (Inr res)"
  shows "findAll_filter c ts teamId q = Inr (findAll_matches c ts teamId q)
           \<and> mset res = mset (filter (findAll_matches c ts teamId q) (docs s))
           \<and> sorted_wrt (findAll_order ts q) res"
  using assms
proof (cases rule: findAll.cases)
  case (findAll_returns flt)
  then have "flt = findAll_matches c ts teamId q"
    by (simp add: findAll_filter_def split: if_splits)
  with findAll_returns show ?thesis by (simp add: find_sort_def)
qed

lemma mset_filter_set:
  assumes "mset res = mset (filter flt ds)"
  shows "set res = {d \<in> set ds. flt d}"
proof -
  have "set_mset (mset res) = set_mset (mset (filter flt ds))" using assms by simp
  then show ?thesis by simp
qed

lemma findAll_matches_default:
  "findAll_matches c ts teamId default_query d
     \<longleftrightarrow> team_id d = teamId \<and> deleted_at d = None \<and> status d \<noteq> DONE"
  by (simp add: findAll_matches_def default_query_def opt_val_def)

lemma findAll_matches_done:
  assumes "findAll_matches c ts teamId q d" "status d = DONE"
  shows "include_completed q = Some True \<or> q_status q = Some DONE"
proof (cases "q_status q")
  case None
  with assms show ?thesis by (simp add: findAll_matches_def)
next
  case (Some st)
  with assms show ?thesis by (simp add: findAll_matches_def)
qed


lemma findAll_matches_include_completed:
  "findAll_matches c ts teamId (default_query\<lparr>include_completed := Some True\<rparr>) d
     \<longleftrightarrow> team_id d = teamId \<and> deleted_at d = None"
  by (simp add: findAll_matches_def default_query_def opt_val_def)

section \<open>C10: the default listing leaves out done tasks\<close>

text \<open>
  C10. Of every list \<open>findAll\<close> returns: for the default query \<open>{}\<close> it holds exactly
  the team's tasks that are neither soft-deleted nor in status done; a task in status done
  is in it only if \<open>include_completed\<close> is true or the query names the status done;
  and with \<open>include_completed\<close> alone the done tasks are listed with the others.
\<close>

theorem findAll_excludes_done_by_default:
  assumes "findAll c ts s teamId q (Inr res)"
  shows "(q = default_query \<longrightarrow>
            set res = {d \<in> set (docs s). team_id d = teamId \<and> deleted_at d = None \<and> status d \<noteq> DONE})
         \<and> (\<forall>d\<in>set res. status d = DONE \<longrightarrow> include_completed q = Some True \<or> q_status q = Some DONE)
         \<and> (q = default_query\<lparr>include_completed := Some True\<rparr> \<longrightarrow>
            set res = {d \<in> set (docs s). team_id d = teamId \<and> deleted_at d = None})"
proof -
  from findAll_InrD[OF assms]
  have m: "mset res = mset (filter (findAll_matches c ts teamId q) (docs s))" by simp
  note setres = mset_filter_set[OF m]
  have 1: "q = default_query \<longrightarrow>
            set res = {d \<in> set (docs s). team_id d = teamId \<and> deleted_at d = None \<and> status d \<noteq> DONE}"
    using setres by (simp add: findAll_matches_default)
  have 2: "\<forall>d\<in>set res. status d = DONE \<longrightarrow> include_completed q = Some True \<or> q_status q = Some DONE"
    using setres findAll_matches_done by blast
  have 3: "q = default_query\<lparr>include_completed := Some True\<rparr> \<longrightarrow>
            set res = {d \<in> set (docs s). team_id d = teamId \<and> deleted_at d = None}"
    using setres by (simp add: findAll_matches_include_completed)
  from 1 2 3 show ?thesis by (intro conjI)
qed

lemma findAll_filter_default: "findAll_filter c ts teamId default_query = Inr (findAll_matches c ts teamId default_query)"
  by (simp add: findAll_filter_def default_query_def opt_val_def)

theorem findAll_default_witness:
  "findAll ex_toObjectId no_textScore ex_tasks_done teamA default_query (Inr [ex_task])
   \<and> set [ex_task] = {d \<in> set (docs ex_tasks_done). team_id d = teamA \<and> deleted_at d = None \<and> status d \<noteq> DONE}
   \<and> done_task \<in> set (docs ex_tasks_done) \<and> status done_task = DONE"
proof -
  have fs: "find_sort (docs ex_tasks_done) (findAll_matches ex_toObjectId no_textScore teamA default_query)
              (findAll_order no_textScore default_query) [ex_task]"
    by (simp add: find_sort_def findAll_matches_default ex_tasks_done_def ex_task_def done_task_def)
  have r: "findAll ex_toObjectId no_textScore ex_tasks_done teamA default_query (Inr [ex_task])"
    by (rule findAll_returns[OF findAll_filter_default fs])
  from findAll_excludes_done_by_default[OF r]
  have eq: "set [ex_task] = {d \<in> set (docs ex_tasks_done). team_id d = teamA \<and> deleted_at d = None \<and> status d \<noteq> DONE}"
    by blast
  have d: "done_task \<in> set (docs ex_tasks_done)" "status done_task = DONE"
    by (simp_all add: ex_tasks_done_def done_task_def)
  from r eq d show ?thesis by (intro conjI)
qed

section \<open>Facts about remove, restore and the lists findAll returns\<close>

lemma remove_ok:
  assumes "findOne c s ident teamId = Inr t" "distinct (map oid (docs s))"
  shows "remove c now s ident teamId userId =
     (\<lparr>docs = map (\<lambda>d. if oid d = oid t then remove_doc now userId d else d) (docs s),
       writes = Suc (writes s)\<rparr>, Inr ())"
  using assms findOne_InrD[OF assms(1)]
  by (simp add: remove_def findByIdAndUpdate_def update_first_unique_key)

lemma restore_ok:
  assumes "t \<in> set (docs s)" "distinct (map oid (docs s))" "c ident = Some (oid t)"
    "team_id t = teamId" "deleted_at t \<noteq> None"
  shows "restore c now s ident teamId userId =
     (\<lparr>docs = map (\<lambda>d. if oid d = oid t then restore_doc now t userId d else d) (docs s),
       writes = Suc (writes s)\<rparr>, Inr (restore_doc now t userId t))"
proof -
  have "find (\<lambda>d. oid d = oid t \<and> (team_id d = teamId \<and> deleted_at d \<noteq> None)) (docs s) = Some t"
    using find_unique_key[OF assms(2,1), of "\<lambda>d. team_id d = teamId \<and> deleted_at d \<noteq> None"] assms(4,5)
    by simp
  then show ?thesis
    using assms(1,2,3) by (simp add: restore_def findByIdAndUpdate_def update_first_unique_key)
qed


lemma status_rank_inj: "status_rank a = status_rank b \<longleftrightarrow> a = b"
  by (cases a; cases b) simp_all

lemma find_sort_exists:
  fixes key :: "'d \<Rightarrow> 'k::linorder"
  assumes "\<And>a b. key a \<le> key b \<Longrightarrow> ord a b"
  shows "find_sort ds flt ord (sort_key key (filter flt ds))"
proof -
  have "sorted_wrt (\<lambda>a b. key a \<le> key b) (sort_key key (filter flt ds))"
    using sorted_sort_key[of key "filter flt ds"] by (simp add: sorted_map)
  then have "sorted_wrt ord (sort_key key (filter flt ds))"
    by (rule sorted_wrt_mono_rel[rotated]) (use assms in blast)
  then show ?thesis by (simp add: find_sort_def)
qed

lemma findAll_returns_a_list:
  assumes "findAll_filter c ts teamId q = Inr flt"
  shows "\<exists>res. findAll c ts s teamId q (Inr res)"
proof (cases "truthy (opt_val VStr (q_search q))")
  case True
  let ?key = "\<lambda>d. case ts (the (q_search q)) d of None \<Rightarrow> 0 | Some x \<Rightarrow> - x"
  have "find_sort (docs s) flt (findAll_order ts q) (sort_key ?key (filter flt (docs s)))"
    by (rule find_sort_exists) (use True in \<open>auto simp: findAll_order_def split: option.splits\<close>)
  from findAll_returns[OF assms this] show ?thesis by blast
next
  case False
  let ?key = "\<lambda>d. (status_rank (status d), position d)"
  have "find_sort (docs s) flt (findAll_order ts q) (sort_key ?key (filter flt (docs s)))"
    by (rule find_sort_exists) (use False in \<open>auto simp: findAll_order_def status_rank_inj\<close>)
  from findAll_returns[OF assms this] show ?thesis by blast
qed


lemma findAll_matches_include_deleted:
  "findAll_matches c ts teamId (default_query\<lparr>include_deleted := Some True\<rparr>) d
     \<longleftrightarrow> team_id d = teamId \<and> status d \<noteq> DONE"
  by (simp add: findAll_matches_def default_query_def opt_val_def)

lemma findAll_filter_plain:
  "q_project_id q = None \<Longrightarrow> findAll_filter c ts teamId q = Inr (findAll_matches c ts teamId q)"
  by (simp add: findAll_filter_def opt_val_def)

lemma findAll_set:
  assumes "findAll c ts s teamId q (Inr res)"
  shows "set res = {d \<in> set (docs s). findAll_matches c ts teamId q d}"
  using findAll_InrD[OF assms] mset_filter_set by blast

section \<open>C5: soft delete, listing and restore\<close>

text \<open>
  C5, as amended. Let \<open>findOne\<close> find the task \<open>t\<close> (so it is active), in a collection
  with unique \<open>_id\<close>, and let its status not be done. Then \<open>remove\<close> succeeds, and
  on the collection it leaves: \<open>findAll\<close> with the default query returns lists, none of
  which holds a task with \<open>t\<close>'s \<open>_id\<close>; with \<open>include_deleted\<close> it returns lists, all
  of which hold one. \<open>restore\<close> then succeeds and returns the task with
  \<open>deleted_at\<close> cleared, and every list \<open>findAll\<close> returns for the default query holds
  it again.
\<close>

theorem soft_delete_exclusion:
  assumes found: "findOne c s ident teamId = Inr t"
    and uniq: "distinct (map oid (docs s))"
    and nd: "status t \<noteq> DONE"
  shows "\<exists>s1 s2 t2.
           remove c now s ident teamId userId = (s1, Inr ())
         \<and> (\<exists>res. findAll c ts s1 teamId default_query (Inr res))
         \<and> (\<forall>res. findAll c ts s1 teamId default_query (Inr res) \<longrightarrow> oid t \<notin> oid ` set res)
         \<and> (\<exists>res. findAll c ts s1 teamId (default_query\<lparr>include_deleted := Some True\<rparr>) (Inr res))
         \<and> (\<forall>res. findAll c ts s1 teamId (default_query\<lparr>include_deleted := Some True\<rparr>) (Inr res)
                 \<longrightarrow> oid t \<in> oid ` set res)
         \<and> restore c now' s1 ident teamId userId = (s2, Inr t2)
         \<and> oid t2 = oid t \<and> deleted_at t2 = None
         \<and> (\<exists>res. findAll c ts s2 teamId default_query (Inr res))
         \<and> (\<forall>res. findAll c ts s2 teamId default_query (Inr res) \<longrightarrow> oid t \<in> oid ` set res)"
proof -
  from findOne_InrD[OF found]
  have ci: "c ident = Some (oid t)" and tin: "t \<in> set (docs s)" and team: "team_id t = teamId"
    by simp_all
  let ?f1 = "\<lambda>d. if oid d = oid t then remove_doc now userId d else d"
  let ?s1 = "\<lparr>docs = map ?f1 (docs s), writes = Suc (writes s)\<rparr>"
  let ?t1 = "remove_doc now userId t"
  have t1: "oid ?t1 = oid t" "team_id ?t1 = teamId" "deleted_at ?t1 = Some now" "status ?t1 = status t"
    using team by (simp_all add: remove_doc_def)
  have "?f1 t = ?t1" by simp
  with tin have "?t1 \<in> set (map ?f1 (docs s))"
    unfolding set_map by (rule rev_image_eqI[OF _ sym])
  then have t1in: "?t1 \<in> set (docs ?s1)" by simp
  have mo: "map oid (map ?f1 (docs s)) = map oid (docs s)"
    by (rule map_upd_keeps_oids) (simp add: remove_doc_def)
  have "distinct (map oid (map ?f1 (docs s)))" unfolding mo by (rule uniq)
  then have uniq1: "distinct (map oid (docs ?s1))" by (simp del: map_map)
  have rm: "remove c now s ident teamId userId = (?s1, Inr ())"
    by (rule remove_ok[OF found uniq])
  have ex1: "\<exists>res. findAll c ts ?s1 teamId default_query (Inr res)"
    by (rule findAll_returns_a_list[OF findAll_filter_plain]) (simp add: default_query_def)
  have ex2: "\<exists>res. findAll c ts ?s1 teamId (default_query\<lparr>include_deleted := Some True\<rparr>) (Inr res)"
    by (rule findAll_returns_a_list[OF findAll_filter_plain]) (simp add: default_query_def)
  have out1: "\<forall>res. findAll c ts ?s1 teamId default_query (Inr res) \<longrightarrow> oid t \<notin> oid ` set res"
  proof (intro allI impI notI)
    fix res assume r: "findAll c ts ?s1 teamId default_query (Inr res)" and "oid t \<in> oid ` set res"
    then obtain d where d: "d \<in> set res" "oid d = oid t" by (auto simp: image_iff)
    from findAll_set[OF r] d(1)
    have din: "d \<in> set (docs ?s1)" and dm: "findAll_matches c ts teamId default_query d" by simp_all
    from same_key_same_doc[OF uniq1 din t1in] d(2) t1(1) have "d = ?t1" by simp
    with dm t1(3) show False by (simp add: findAll_matches_default)
  qed
  have in1: "\<forall>res. findAll c ts ?s1 teamId (default_query\<lparr>include_deleted := Some True\<rparr>) (Inr res)
                 \<longrightarrow> oid t \<in> oid ` set res"
  proof (intro allI impI)
    fix res assume r: "findAll c ts ?s1 teamId (default_query\<lparr>include_deleted := Some True\<rparr>) (Inr res)"
    have "findAll_matches c ts teamId (default_query\<lparr>include_deleted := Some True\<rparr>) ?t1"
      using t1 nd by (simp add: findAll_matches_include_deleted)
    with findAll_set[OF r] t1in have "?t1 \<in> set res" by simp
    then have "oid ?t1 \<in> oid ` set res" by (rule imageI)
    with t1(1) show "oid t \<in> oid ` set res" by simp
  qed
  let ?f2 = "\<lambda>d. if oid d = oid ?t1 then restore_doc now' ?t1 userId d else d"
  let ?s2 = "\<lparr>docs = map ?f2 (docs ?s1), writes = Suc (writes ?s1)\<rparr>"
  let ?t2 = "restore_doc now' ?t1 userId ?t1"
  have ci1: "c ident = Some (oid ?t1)" using ci t1(1) by simp
  have del1: "deleted_at ?t1 \<noteq> None" using t1(3) by simp
  have rs: "restore c now' ?s1 ident teamId userId = (?s2, Inr ?t2)"
    by (rule restore_ok[where t="?t1" and s="?s1" and c=c and ident=ident, OF t1in uniq1 ci1 t1(2) del1])
  have t2: "oid ?t2 = oid t" "team_id ?t2 = teamId" "deleted_at ?t2 = None" "status ?t2 = status t"
    using t1 by (simp_all add: restore_doc_def)
  have "?f2 ?t1 = ?t2" by simp
  with t1in have "?t2 \<in> set (map ?f2 (docs ?s1))"
    unfolding set_map by (rule rev_image_eqI[OF _ sym])
  then have t2in: "?t2 \<in> set (docs ?s2)" by simp
  have ex3: "\<exists>res. findAll c ts ?s2 teamId default_query (Inr res)"
    by (rule findAll_returns_a_list[OF findAll_filter_plain]) (simp add: default_query_def)
  have in2: "\<forall>res. findAll c ts ?s2 teamId default_query (Inr res) \<longrightarrow> oid t \<in> oid ` set res"
  proof (intro allI impI)
    fix res assume r: "findAll c ts ?s2 teamId default_query (Inr res)"
    have "findAll_matches c ts teamId default_query ?t2"
      using t2 nd by (simp add: findAll_matches_default)
    with findAll_set[OF r] t2in have "?t2 \<in> set res" by simp
    then have "oid ?t2 \<in> oid ` set res" by (rule imageI)
    with t2(1) show "oid t \<in> oid ` set res" by simp
  qed
  show ?thesis
    apply (rule exI[of _ ?s1], rule exI[of _ ?s2], rule exI[of _ ?t2])
    apply (intro conjI)
             apply (rule rm)
            apply (rule ex1)
           apply (rule out1)
          apply (rule ex2)
         apply (rule in1)
        apply (rule rs)
       apply (rule t2(1))
      apply (rule t2(3))
     apply (rule ex3)
    apply (rule in2)
    done
qed


theorem soft_delete_exclusion_witness:
  "findOne ex_toObjectId ex_tasks id1 teamA = Inr ex_task
   \<and> distinct (map oid (docs ex_tasks))
   \<and> status ex_task \<noteq> DONE
   \<and> (\<exists>s1 s2 t2.
           remove ex_toObjectId 2000 ex_tasks id1 teamA user1 = (s1, Inr ())
         \<and> (\<exists>res. findAll ex_toObjectId no_textScore s1 teamA default_query (Inr res))
         \<and> (\<forall>res. findAll ex_toObjectId no_textScore s1 teamA default_query (Inr res)
                 \<longrightarrow> oid ex_task \<notin> oid ` set res)
         \<and> (\<exists>res. findAll ex_toObjectId no_textScore s1 teamA
                   (default_query\<lparr>include_deleted := Some True\<rparr>) (Inr res))
         \<and> (\<forall>res. findAll ex_toObjectId no_textScore s1 teamA
                   (default_query\<lparr>include_deleted := Some True\<rparr>) (Inr res)
                 \<longrightarrow> oid ex_task \<in> oid ` set res)
         \<and> restore ex_toObjectId 3000 s1 id1 teamA user1 = (s2, Inr t2)
         \<and> oid t2 = oid ex_task \<and> deleted_at t2 = None
         \<and> (\<exists>res. findAll ex_toObjectId no_textScore s2 teamA default_query (Inr res))
         \<and> (\<forall>res. findAll ex_toObjectId no_textScore s2 teamA default_query (Inr res)
                 \<longrightarrow> oid ex_task \<in> oid ` set res))"
proof -
  have f: "findOne ex_toObjectId ex_tasks id1 teamA = Inr ex_task"
    by (simp add: findOne_def ex_toObjectId_def ex_tasks_def ex_task_def)
  have u: "distinct (map oid (docs ex_tasks))"
    by (simp add: ex_tasks_def ex_task_def ex_task2_def ex_taskB_def)
  have n: "status ex_task \<noteq> DONE" by (simp add: ex_task_def)
  note r = soft_delete_exclusion[OF f u n, of 2000 user1 no_textScore 3000]
  from f u n r show ?thesis by (intro conjI)
qed

text \<open>
  C5 as the claim states it, for every active task, fails on a task in status done: the
  listing leaves done tasks out unless asked for them. After \<open>remove\<close>, \<open>findAll\<close> with
  \<open>include_deleted\<close> returns the empty list, and after \<open>restore\<close> the default
  \<open>findAll\<close> returns the empty list.
\<close>

theorem done_task_not_listed_after_restore:
  "findOne ex_toObjectId \<lparr>docs = [done_task], writes = 0\<rparr> id2 teamA = Inr done_task
   \<and> findAll ex_toObjectId no_textScore
        (fst (remove ex_toObjectId 2000 \<lparr>docs = [done_task], writes = 0\<rparr> id2 teamA user1))
        teamA (default_query\<lparr>include_deleted := Some True\<rparr>) (Inr [])
   \<and> findAll ex_toObjectId no_textScore
        (fst (restore ex_toObjectId 3000
               (fst (remove ex_toObjectId 2000 \<lparr>docs = [done_task], writes = 0\<rparr> id2 teamA user1))
               id2 teamA user1))
        teamA default_query (Inr [])"
proof -
  let ?s = "\<lparr>docs = [done_task], writes = 0\<rparr>"
  let ?s1 = "\<lparr>docs = [remove_doc 2000 user1 done_task], writes = 1\<rparr>"
  let ?t1 = "remove_doc 2000 user1 done_task"
  let ?s2 = "\<lparr>docs = [restore_doc 3000 ?t1 user1 ?t1], writes = 2\<rparr>"
  have f: "findOne ex_toObjectId ?s id2 teamA = Inr done_task"
    by (simp add: findOne_def ex_toObjectId_def ids_distinct done_task_def ex_task_def)
  have od: "oid done_task = 2" by (simp add: done_task_def)
  have rm: "fst (remove ex_toObjectId 2000 ?s id2 teamA user1) = ?s1"
    by (simp add: remove_def f ex_toObjectId_def ids_distinct findByIdAndUpdate_def od)
  have rs: "fst (restore ex_toObjectId 3000 ?s1 id2 teamA user1) = ?s2"
    by (simp add: restore_def ex_toObjectId_def ids_distinct findByIdAndUpdate_def done_task_def
        ex_task_def remove_doc_def restore_doc_def)
  have fs1: "find_sort (docs ?s1)
      (findAll_matches ex_toObjectId no_textScore teamA (default_query\<lparr>include_deleted := Some True\<rparr>))
      (findAll_order no_textScore (default_query\<lparr>include_deleted := Some True\<rparr>)) []"
    by (simp add: find_sort_def findAll_matches_include_deleted remove_doc_def done_task_def)
  have fs2: "find_sort (docs ?s2)
      (findAll_matches ex_toObjectId no_textScore teamA default_query)
      (findAll_order no_textScore default_query) []"
    by (simp add: find_sort_def findAll_matches_default remove_doc_def restore_doc_def done_task_def)
  have a1: "findAll ex_toObjectId no_textScore ?s1 teamA (default_query\<lparr>include_deleted := Some True\<rparr>) (Inr [])"
    by (rule findAll_returns[OF findAll_filter_plain fs1]) (simp add: default_query_def)
  have a2: "findAll ex_toObjectId no_textScore ?s2 teamA default_query (Inr [])"
    by (rule findAll_returns[OF findAll_filter_plain fs2]) (simp add: default_query_def)
  show ?thesis
    unfolding rm rs by (intro conjI f a1 a2)
qed

section \<open>C7: the board\<close>

lemma sorted_distinct_mset_unique:
  fixes k :: "'a \<Rightarrow> 'k::linorder"
  assumes "sorted (map k xs)" "sorted (map k ys)" "distinct (map k xs)" "mset xs = mset ys"
  shows "xs = ys"
proof -
  from assms(4) have "mset (map k xs) = mset (map k ys)" by simp
  then have dy: "distinct (map k ys)" and se: "set (map k xs) = set (map k ys)"
    using assms(3) by (metis mset_eq_imp_distinct_iff, metis mset_eq_setD)
  from sorted_distinct_set_unique[OF assms(1,3) assms(2) dy se]
  have meq: "map k xs = map k ys" .
  from assms(3) have "inj_on k (set xs)" by (simp add: distinct_map)
  moreover from assms(4) have "set ys = set xs" by (metis mset_eq_setD)
  ultimately have "inj_on k (set xs \<union> set ys)" by simp
  from inj_on_map_eq_map[OF this] meq show ?thesis by simp
qed

lemma sorted_wrt_by_position: "sorted_wrt by_position xs \<longleftrightarrow> sorted (map position xs)"
  by (simp add: sorted_map by_position_def[abs_def])

lemma getKanbanBoard_InrD:
  assumes "getKanbanBoard c s teamId projectId (Inr b)"
  shows "\<exists>res. mset res = mset (filter (kanban_matches c teamId projectId) (docs s))
           \<and> sorted (map position res) \<and> b = kanban_columns res"
  using assms
proof (cases rule: getKanbanBoard.cases)
  case (kanban_returns flt tasks)
  then have "flt = kanban_matches c teamId projectId"
    by (simp add: kanban_filter_def split: if_splits)
  with kanban_returns show ?thesis
    by (auto simp: find_sort_def sorted_wrt_by_position)
qed

lemma column_kanban_columns: "column (kanban_columns res) st = filter (\<lambda>d. status d = st) res"
  by (cases st) (simp_all add: kanban_columns_def)


lemma sorted_map_filter: "sorted (map k xs) \<Longrightarrow> sorted (map k (filter P xs))"
  by (induction xs) auto

lemma mset_filter_cong_mset:
  "mset xs = mset ys \<Longrightarrow> mset (filter P xs) = mset (filter P ys)"
  by (metis mset_filter)

lemma board_column:
  assumes "getKanbanBoard c s teamId projectId (Inr b)"
  shows "mset (column b st) = mset (filter (\<lambda>d. kanban_matches c teamId projectId d \<and> status d = st) (docs s))"
    and "sorted (map position (column b st))"
proof -
  from getKanbanBoard_InrD[OF assms] obtain res where
    m: "mset res = mset (filter (kanban_matches c teamId projectId) (docs s))"
    and so: "sorted (map position res)" and b: "b = kanban_columns res" by blast
  have "mset (filter (\<lambda>d. status d = st) res)
        = mset (filter (\<lambda>d. status d = st) (filter (kanban_matches c teamId projectId) (docs s)))"
    by (rule mset_filter_cong_mset[OF m])
  then show "mset (column b st) = mset (filter (\<lambda>d. kanban_matches c teamId projectId d \<and> status d = st) (docs s))"
    by (simp add: b column_kanban_columns conj_commute)
  show "sorted (map position (column b st))"
    unfolding b column_kanban_columns by (rule sorted_map_filter[OF so])
qed

text \<open>
  C7, as amended. Of every board \<open>getKanbanBoard\<close> returns, and every status: the
  column of the status holds exactly the tasks of the team that are not soft-deleted
  (and belong to the project, when one is given) and have that status, and it is ordered
  by ascending position. Where the positions in a column are pairwise different, the
  column is the same for every answer of the store and for every order in which the
  same documents were inserted. The code names no second sort key: nothing is promised
  about the order of tasks with equal positions.
\<close>

theorem board_groups_and_orders_by_position:
  assumes "getKanbanBoard c s teamId projectId (Inr b)"
  shows "mset (column b st) = mset (filter (\<lambda>d. kanban_matches c teamId projectId d \<and> status d = st) (docs s))
         \<and> sorted (map position (column b st))
         \<and> (distinct (map position (column b st)) \<longrightarrow>
               (\<forall>s' b'. mset (docs s') = mset (docs s) \<and> getKanbanBoard c s' teamId projectId (Inr b')
                  \<longrightarrow> column b' st = column b st))"
proof (intro conjI impI allI)
  show "mset (column b st) = mset (filter (\<lambda>d. kanban_matches c teamId projectId d \<and> status d = st) (docs s))"
    by (rule board_column(1)[OF assms])
  show "sorted (map position (column b st))"
    by (rule board_column(2)[OF assms])
next
  fix s' b'
  assume d: "distinct (map position (column b st))"
    and h: "mset (docs s') = mset (docs s) \<and> getKanbanBoard c s' teamId projectId (Inr b')"
  from h have ms: "mset (docs s') = mset (docs s)" and g: "getKanbanBoard c s' teamId projectId (Inr b')"
    by simp_all
  have "mset (column b' st) = mset (filter (\<lambda>d. kanban_matches c teamId projectId d \<and> status d = st) (docs s'))"
    by (rule board_column(1)[OF g])
  also have "\<dots> = mset (filter (\<lambda>d. kanban_matches c teamId projectId d \<and> status d = st) (docs s))"
    by (rule mset_filter_cong_mset[OF ms])
  also have "\<dots> = mset (column b st)"
    by (rule board_column(1)[OF assms, symmetric])
  finally have "mset (column b st) = mset (column b' st)" by simp
  from sorted_distinct_mset_unique[OF board_column(2)[OF assms] board_column(2)[OF g] d this]
  show "column b' st = column b st" by simp
qed


lemma kanban_filter_no_project:
  "kanban_filter c teamId None = Inr (kanban_matches c teamId None)"
  by (simp add: kanban_filter_def opt_val_def)

lemma kanban_matches_no_project:
  "kanban_matches c teamId None d \<longleftrightarrow> team_id d = teamId \<and> deleted_at d = None"
  by (simp add: kanban_matches_def opt_val_def)

text \<open>
  The instance of the claim: three todo tasks inserted with the positions 3, 1, 2 come
  back as 1, 2, 3, whatever the insertion order.
\<close>

theorem board_witness:
  "getKanbanBoard ex_toObjectId board_tasks teamA None (Inr (kanban_columns [pos1, pos2, pos3]))
   \<and> map position (docs board_tasks) = [3, 1, 2]
   \<and> column (kanban_columns [pos1, pos2, pos3]) TODO = [pos1, pos2, pos3]
   \<and> map position [pos1, pos2, pos3] = [1, 2, 3]
   \<and> sorted (map position (column (kanban_columns [pos1, pos2, pos3]) TODO))
   \<and> \<not> (\<exists>s' b'. mset (docs s') = mset (docs board_tasks)
                \<and> getKanbanBoard ex_toObjectId s' teamA None (Inr b')
                \<and> column b' TODO \<noteq> [pos1, pos2, pos3])"
proof -
  have km: "kanban_matches ex_toObjectId teamA None pos1" "kanban_matches ex_toObjectId teamA None pos2"
    "kanban_matches ex_toObjectId teamA None pos3"
    by (simp_all add: kanban_matches_no_project pos1_def pos2_def pos3_def ex_task_def)
  have st: "status pos1 = TODO" "status pos2 = TODO" "status pos3 = TODO"
    by (simp_all add: pos1_def pos2_def pos3_def ex_task_def)
  have ps: "position pos1 = 1" "position pos2 = 2" "position pos3 = 3"
    by (simp_all add: pos1_def pos2_def pos3_def)
  have fl: "filter (kanban_matches ex_toObjectId teamA None) (docs board_tasks) = [pos3, pos1, pos2]"
    by (simp add: board_tasks_def km)
  have fs: "find_sort (docs board_tasks) (kanban_matches ex_toObjectId teamA None) by_position [pos1, pos2, pos3]"
    unfolding find_sort_def fl by (simp add: by_position_def ps add_mset_commute)
  have r: "getKanbanBoard ex_toObjectId board_tasks teamA None (Inr (kanban_columns [pos1, pos2, pos3]))"
    by (rule kanban_returns[OF kanban_filter_no_project fs])
  have ins: "map position (docs board_tasks) = [3, 1, 2]"
    by (simp add: board_tasks_def ps)
  have col: "column (kanban_columns [pos1, pos2, pos3]) TODO = [pos1, pos2, pos3]"
    by (simp add: kanban_columns_def st)
  have mp: "map position [pos1, pos2, pos3] = [1, 2, 3]" by (simp add: ps)
  note t = board_groups_and_orders_by_position[OF r, of TODO]
  from t have so: "sorted (map position (column (kanban_columns [pos1, pos2, pos3]) TODO))" by blast
  have di: "distinct (map position (column (kanban_columns [pos1, pos2, pos3]) TODO))"
    unfolding col mp by simp
  from t di have "\<forall>s' b'. mset (docs s') = mset (docs board_tasks)
        \<and> getKanbanBoard ex_toObjectId s' teamA None (Inr b')
      \<longrightarrow> column b' TODO = column (kanban_columns [pos1, pos2, pos3]) TODO" by blast
  then have un: "\<not> (\<exists>s' b'. mset (docs s') = mset (docs board_tasks)
                \<and> getKanbanBoard ex_toObjectId s' teamA None (Inr b')
                \<and> column b' TODO \<noteq> [pos1, pos2, pos3])"
    unfolding col by blast
  from r ins col mp so un show ?thesis by (intro conjI)
qed

text \<open>
  C7 as the claim states it, with ties broken by a stable secondary key, fails: for two
  todo tasks with the same position, the query \<open>sort({position: 1})\<close> admits both
  orders, and \<open>getKanbanBoard\<close> returns whichever the store answers with.
\<close>

theorem board_tie_order_not_fixed:
  "position ex_task = position ex_task2
   \<and> getKanbanBoard ex_toObjectId tied_tasks teamA None (Inr (kanban_columns [ex_task, ex_task2]))
   \<and> getKanbanBoard ex_toObjectId tied_tasks teamA None (Inr (kanban_columns [ex_task2, ex_task]))
   \<and> b_todo (kanban_columns [ex_task, ex_task2]) = [ex_task, ex_task2]
   \<and> b_todo (kanban_columns [ex_task2, ex_task]) = [ex_task2, ex_task]
   \<and> [ex_task, ex_task2] \<noteq> [ex_task2, ex_task]"
proof -
  have km: "kanban_matches ex_toObjectId teamA None ex_task" "kanban_matches ex_toObjectId teamA None ex_task2"
    by (simp_all add: kanban_matches_no_project ex_task2_def ex_task_def)
  have st: "status ex_task = TODO" "status ex_task2 = TODO"
    by (simp_all add: ex_task2_def ex_task_def)
  have ps: "position ex_task = position ex_task2"
    by (simp add: ex_task2_def)
  have ne: "ex_task \<noteq> ex_task2"
  proof
    assume "ex_task = ex_task2"
    then have "oid ex_task = oid ex_task2" by simp
    then show False by (simp add: ex_task2_def ex_task_def)
  qed
  have fl: "filter (kanban_matches ex_toObjectId teamA None) (docs tied_tasks) = [ex_task, ex_task2]"
    by (simp add: tied_tasks_def km)
  have fs1: "find_sort (docs tied_tasks) (kanban_matches ex_toObjectId teamA None) by_position [ex_task, ex_task2]"
    unfolding find_sort_def fl by (simp add: by_position_def ps)
  have fs2: "find_sort (docs tied_tasks) (kanban_matches ex_toObjectId teamA None) by_position [ex_task2, ex_task]"
    unfolding find_sort_def fl by (simp add: by_position_def ps add_mset_commute)
  have r1: "getKanbanBoard ex_toObjectId tied_tasks teamA None (Inr (kanban_columns [ex_task, ex_task2]))"
    by (rule kanban_returns[OF kanban_filter_no_project fs1])
  have r2: "getKanbanBoard ex_toObjectId tied_tasks teamA None (Inr (kanban_columns [ex_task2, ex_task]))"
    by (rule kanban_returns[OF kanban_filter_no_project fs2])
  have c1: "b_todo (kanban_columns [ex_task, ex_task2]) = [ex_task, ex_task2]"
    and c2: "b_todo (kanban_columns [ex_task2, ex_task]) = [ex_task2, ex_task]"
    by (simp_all add: kanban_columns_def st)
  have d: "[ex_task, ex_task2] \<noteq> [ex_task2, ex_task]" using ne by simp
  from ps r1 r2 c1 c2 d show ?thesis by (intro conjI)
qed

section \<open>C6: a soft-deleted project keeps its name\<close>

subsection \<open>Trimming twice is trimming once\<close>

lemma drop_leading_fixed:
  "find (\<lambda>w. w \<noteq> [] \<and> take (length w) s = w) ws = None \<Longrightarrow> drop_leading ws s = s"
  by (simp add: drop_leading.simps[of ws s])

lemma drop_leading_result:
  "find (\<lambda>w. w \<noteq> [] \<and> take (length w) (drop_leading ws s) = w) ws = None"
proof (induction ws s rule: drop_leading.induct)
  case (1 ws s)
  show ?case
  proof (cases "find (\<lambda>w. w \<noteq> [] \<and> take (length w) s = w) ws")
    case None
    then show ?thesis by (simp add: drop_leading.simps[of ws s])
  next
    case (Some w)
    with 1[OF Some] show ?thesis by (simp add: drop_leading.simps[of ws s])
  qed
qed

lemma drop_leading_is_suffix: "\<exists>p. s = p @ drop_leading ws s"
proof (induction ws s rule: drop_leading.induct)
  case (1 ws s)
  show ?case
  proof (cases "find (\<lambda>w. w \<noteq> [] \<and> take (length w) s = w) ws")
    case None
    then show ?thesis by (simp add: drop_leading.simps[of ws s])
  next
    case (Some w)
    from 1[OF Some] obtain p where p: "drop (length w) s = p @ drop_leading ws (drop (length w) s)"
      by blast
    have "s = take (length w) s @ drop (length w) s" by simp
    also have "\<dots> = (take (length w) s @ p) @ drop_leading ws (drop (length w) s)"
      using p by simp
    finally have "s = (take (length w) s @ p) @ drop_leading ws s"
      using Some by (simp add: drop_leading.simps[of ws s])
    then show ?thesis by blast
  qed
qed

lemma no_leading_prefix:
  assumes "find (\<lambda>w. w \<noteq> [] \<and> take (length w) (x @ y) = w) ws = None"
  shows "find (\<lambda>w. w \<noteq> [] \<and> take (length w) x = w) ws = None"
proof -
  have "\<not> (w \<noteq> [] \<and> take (length w) x = w)" if w: "w \<in> set ws" for w
  proof
    assume h: "w \<noteq> [] \<and> take (length w) x = w"
    then have "length (take (length w) x) = length w" by simp
    then have "length w \<le> length x" by simp
    with h have "take (length w) (x @ y) = w" by simp
    with h w assms show False by (auto simp: find_None_iff)
  qed
  then show ?thesis by (auto simp: find_None_iff)
qed

lemma trim_idem: "trim (trim s) = trim s"
proof -
  let ?rws = "map rev white_space"
  let ?a = "drop_leading white_space s"
  let ?b = "drop_leading ?rws (rev ?a)"
  from drop_leading_is_suffix[of "rev ?a" ?rws] obtain p where "rev ?a = p @ ?b" by blast
  then have "rev (rev ?a) = rev (p @ ?b)" by simp
  then have a: "?a = rev ?b @ rev p" by simp
  have "find (\<lambda>w. w \<noteq> [] \<and> take (length w) (rev ?b @ rev p) = w) white_space = None"
    using drop_leading_result[of white_space s] a by simp
  then have "find (\<lambda>w. w \<noteq> [] \<and> take (length w) (rev ?b) = w) white_space = None"
    by (rule no_leading_prefix)
  then have 1: "drop_leading white_space (rev ?b) = rev ?b" by (rule drop_leading_fixed)
  have 2: "drop_leading ?rws ?b = ?b"
    by (rule drop_leading_fixed) (rule drop_leading_result)
  show ?thesis by (simp add: trim_def 1 2)
qed

subsection \<open>What the unique index keeps true of the project collection\<close>

lemma distinct_key_update:
  assumes "distinct (map ki xs)" "distinct (map k xs)" "d \<in> set xs"
    "k (f d) = k d \<or> (\<forall>x\<in>set xs. ki x = ki d \<or> k x \<noteq> k (f d))"
  shows "distinct (map k (map (\<lambda>x. if ki x = ki d then f x else x) xs))"
proof -
  from split_list[OF assms(3)] obtain as bs where xs: "xs = as @ d # bs" by blast
  from assms(1) have ne: "\<forall>x\<in>set as \<union> set bs. ki x \<noteq> ki d"
    unfolding xs by (auto simp: image_iff)
  have ma: "map (\<lambda>x. if ki x = ki d then f x else x) as = as"
    by (rule map_idI) (use ne in simp)
  have mb: "map (\<lambda>x. if ki x = ki d then f x else x) bs = bs"
    by (rule map_idI) (use ne in simp)
  have m: "map (\<lambda>x. if ki x = ki d then f x else x) xs = as @ f d # bs"
    unfolding xs by (simp add: ma mb)
  from assms(4) have "distinct (map k (as @ f d # bs))"
  proof
    assume "k (f d) = k d"
    with assms(2) show ?thesis unfolding xs by simp
  next
    assume "\<forall>x\<in>set xs. ki x = ki d \<or> k x \<noteq> k (f d)"
    with ne have "\<forall>x\<in>set as \<union> set bs. k x \<noteq> k (f d)" unfolding xs by auto
    with assms(2) show ?thesis unfolding xs by (auto simp: image_iff)
  qed
  then show ?thesis by (simp only: m)
qed

lemma stored_ok_writes: "stored_ok (s\<lparr>p_writes := n\<rparr>) = stored_ok s"
  by (simp add: stored_ok_def)

lemma p_findByIdAndUpdate_stored_ok:
  assumes ok: "stored_ok s"
    and keeps: "\<And>d. p_oid (f d) = p_oid d"
    and trims: "\<And>d. trim (name d) = name d \<Longrightarrow> trim (name (f d)) = name (f d)"
  shows "stored_ok (fst (p_findByIdAndUpdate i f s))"
proof (cases "find (\<lambda>d. p_oid d = i) (p_docs s)")
  case None
  with ok show ?thesis by (simp add: p_findByIdAndUpdate_def stored_ok_writes)
next
  case (Some d)
  from find_SomeD[OF Some] have di: "p_oid d = i" and din: "d \<in> set (p_docs s)" by simp_all
  show ?thesis
  proof (cases "index_key (f d) \<noteq> index_key d \<and> index_taken (p_docs s) i (index_key (f d))")
    case True
    with Some ok show ?thesis by (simp add: p_findByIdAndUpdate_def stored_ok_writes)
  next
    case False
    let ?g = "\<lambda>x. if p_oid x = p_oid d then f x else x"
    from ok have uid: "distinct (map p_oid (p_docs s))" and ukey: "distinct (map index_key (p_docs s))"
      and tr: "\<forall>x\<in>set (p_docs s). trim (name x) = name x"
      by (simp_all add: stored_ok_def list_all_iff)
    have uf: "update_first (\<lambda>x. p_oid x = p_oid d) f (p_docs s) = (map ?g (p_docs s), Some (f d))"
      by (rule update_first_unique_key[OF uid din])
    from False have "index_key (f d) = index_key d
        \<or> (\<forall>x\<in>set (p_docs s). p_oid x = p_oid d \<or> index_key x \<noteq> index_key (f d))"
      by (auto simp: index_taken_def list_ex_iff di)
    then have k': "distinct (map index_key (map ?g (p_docs s)))"
      by (rule distinct_key_update[OF uid ukey din])
    have "map p_oid (map ?g (p_docs s)) = map p_oid (p_docs s)"
      by (rule map_upd_keeps_oids) (rule keeps)
    with uid have i': "distinct (map p_oid (map ?g (p_docs s)))" by (simp only:)
    have t': "\<forall>x\<in>set (map ?g (p_docs s)). trim (name x) = name x"
      using tr trims by auto
    have "p_findByIdAndUpdate i f s =
        (\<lparr>p_docs = fst (update_first (\<lambda>d. p_oid d = i) f (p_docs s)),
          p_writes = Suc (p_writes s)\<rparr>, Inr (Some (f d)))"
      unfolding p_findByIdAndUpdate_def Some option.case using False by (rule if_not_P)
    then have "fst (p_findByIdAndUpdate i f s) = \<lparr>p_docs = map ?g (p_docs s), p_writes = Suc (p_writes s)\<rparr>"
      using uf di by simp
    with i' k' t' show ?thesis by (simp add: stored_ok_def list_all_iff del: map_map)
  qed
qed

lemma p_create_stored_ok:
  assumes ok: "stored_ok s"
  shows "stored_ok (fst (p_create now new_id s dto teamId userId))"
proof -
  let ?p = "\<lparr>p_oid = new_id, name = trim (cp_name dto),
             p_description = map_option trim (cp_description dto),
             p_team_id = teamId, p_created_by = userId, settings = cp_settings dto,
             p_deleted_at = None\<rparr>"
  have "fst (p_create now new_id s dto teamId userId) = s
      \<or> fst (p_create now new_id s dto teamId userId) = s\<lparr>p_writes := Suc (p_writes s)\<rparr>
      \<or> (\<not> list_ex (\<lambda>d. p_oid d = new_id) (p_docs s)
          \<and> \<not> index_taken (p_docs s) new_id (index_key ?p)
          \<and> fst (p_create now new_id s dto teamId userId)
              = \<lparr>p_docs = p_docs s @ [?p], p_writes = Suc (p_writes s)\<rparr>)"
    by (simp add: p_create_def Let_def split: option.splits)
  then show ?thesis
  proof (elim disjE conjE)
    assume "fst (p_create now new_id s dto teamId userId) = s"
    with ok show ?thesis by simp
  next
    assume "fst (p_create now new_id s dto teamId userId) = s\<lparr>p_writes := Suc (p_writes s)\<rparr>"
    with ok show ?thesis by (simp add: stored_ok_writes)
  next
    assume fresh: "\<not> list_ex (\<lambda>d. p_oid d = new_id) (p_docs s)"
      and free: "\<not> index_taken (p_docs s) new_id (index_key ?p)"
      and r: "fst (p_create now new_id s dto teamId userId)
              = \<lparr>p_docs = p_docs s @ [?p], p_writes = Suc (p_writes s)\<rparr>"
    from fresh have f1: "new_id \<notin> p_oid ` set (p_docs s)" by (auto simp: list_ex_iff)
    from fresh free have f2: "index_key ?p \<notin> index_key ` set (p_docs s)"
      by (auto simp: index_taken_def list_ex_iff)
    from ok f1 f2 show ?thesis
      unfolding r by (simp add: stored_ok_def trim_idem)
  qed
qed

lemma p_update_stored_ok:
  assumes ok: "stored_ok s"
  shows "stored_ok (fst (p_update c now s ident dto teamId userId))"
proof -
  have u: "stored_ok (fst (p_findByIdAndUpdate i (p_update_doc dto) s))" for i
    by (rule p_findByIdAndUpdate_stored_ok[OF ok])
      (simp_all add: p_update_doc_def trim_idem split: option.splits)
  have "fst (p_update c now s ident dto teamId userId) = s
      \<or> fst (p_update c now s ident dto teamId userId)
           = fst (p_findByIdAndUpdate (the (c ident)) (p_update_doc dto) s)"
    by (auto simp: p_update_def split: sum.splits option.splits prod.splits)
  with ok u show ?thesis by auto
qed

lemma p_remove_stored_ok:
  assumes ok: "stored_ok s"
  shows "stored_ok (fst (p_remove c now s ident teamId userId))"
proof -
  have u: "stored_ok (fst (p_findByIdAndUpdate i (\<lambda>d. d\<lparr>p_deleted_at := Some now\<rparr>) s))" for i
    by (rule p_findByIdAndUpdate_stored_ok[OF ok]) simp_all
  have "fst (p_remove c now s ident teamId userId) = s
      \<or> fst (p_remove c now s ident teamId userId)
           = fst (p_findByIdAndUpdate (the (c ident)) (\<lambda>d. d\<lparr>p_deleted_at := Some now\<rparr>) s)"
    by (auto simp: p_remove_def split: sum.splits option.splits prod.splits)
  with ok u show ?thesis by auto
qed

lemma p_restore_stored_ok:
  assumes ok: "stored_ok s"
  shows "stored_ok (fst (p_restore c now s ident teamId userId))"
proof -
  have u: "stored_ok (fst (p_findByIdAndUpdate i (\<lambda>d. d\<lparr>p_deleted_at := None\<rparr>) s))" for i
    by (rule p_findByIdAndUpdate_stored_ok[OF ok]) simp_all
  have "fst (p_restore c now s ident teamId userId) = s
      \<or> fst (p_restore c now s ident teamId userId)
           = fst (p_findByIdAndUpdate (the (c ident)) (\<lambda>d. d\<lparr>p_deleted_at := None\<rparr>) s)"
    by (auto simp: p_restore_def split: sum.splits option.splits prod.splits)
  with ok u show ?thesis by auto
qed

text \<open>
  Every collection the service can build from the empty one has unique \<open>_id\<close>, at most
  one project, deleted or not, for each team and name, and trimmed names.
\<close>

lemma p_reachable_stored_ok: "p_reachable c s \<Longrightarrow> stored_ok s"
proof (induction rule: p_reachable.induct)
  case start
  show ?case by (simp add: stored_ok_def)
next
  case (by_create s now new_id dto teamId userId)
  then show ?case by (simp add: p_create_stored_ok)
next
  case (by_update s now ident dto teamId userId)
  then show ?case by (simp add: p_update_stored_ok)
next
  case (by_remove s now ident teamId userId)
  then show ?case by (simp add: p_remove_stored_ok)
next
  case (by_restore s now ident teamId userId)
  then show ?case by (simp add: p_restore_stored_ok)
qed

text \<open>
  So the situation of the claim, a team with an active and a soft-deleted project of one
  name, is one the service never reaches, and the Conflict of \<open>restore\<close> is never thrown.
\<close>

lemma same_name_active_and_deleted_unreachable:
  assumes "p_reachable c s"
  shows "\<not> (\<exists>a\<in>set (p_docs s). \<exists>d\<in>set (p_docs s).
            p_team_id a = p_team_id d \<and> name a = name d
            \<and> p_deleted_at a = None \<and> p_deleted_at d \<noteq> None)"
proof
  assume "\<exists>a\<in>set (p_docs s). \<exists>d\<in>set (p_docs s).
            p_team_id a = p_team_id d \<and> name a = name d
            \<and> p_deleted_at a = None \<and> p_deleted_at d \<noteq> None"
  then obtain a d where a: "a \<in> set (p_docs s)" and d: "d \<in> set (p_docs s)"
    and k: "index_key a = index_key d" and ne: "p_deleted_at a = None" "p_deleted_at d \<noteq> None"
    by (auto simp: index_key_def)
  from p_reachable_stored_ok[OF assms] have "distinct (map index_key (p_docs s))"
    by (simp add: stored_ok_def)
  from same_key_same_doc[OF this a d k] ne show False by simp
qed

lemma p_restore_never_conflicts:
  assumes "p_reachable c s"
  shows "p_restore c now s ident teamId userId \<noteq> (s', Inl ConflictException)"
proof
  assume r: "p_restore c now s ident teamId userId = (s', Inl ConflictException)"
  from p_reachable_stored_ok[OF assms] have ukey: "distinct (map index_key (p_docs s))"
    and tr: "\<forall>x\<in>set (p_docs s). trim (name x) = name x"
    by (simp_all add: stored_ok_def list_all_iff)
  from r obtain i p e where
    p: "find (\<lambda>d. p_oid d = i \<and> p_team_id d = teamId \<and> p_deleted_at d \<noteq> None) (p_docs s) = Some p"
    and e: "find (\<lambda>d. name d = trim (name p) \<and> p_team_id d = teamId \<and> p_deleted_at d = None) (p_docs s) = Some e"
    by (auto simp: p_restore_def split: option.splits prod.splits sum.splits
        dest: p_findByIdAndUpdate_Inl)
  from find_SomeD[OF p] have pin: "p \<in> set (p_docs s)" and pt: "p_team_id p = teamId"
    and pd: "p_deleted_at p \<noteq> None" by simp_all
  from find_SomeD[OF e] have ein: "e \<in> set (p_docs s)" and en: "name e = trim (name p)"
    and et: "p_team_id e = teamId" and ed: "p_deleted_at e = None" by simp_all
  from tr pin en have "name e = name p" by simp
  with pt et have "index_key e = index_key p" by (simp add: index_key_def)
  from same_key_same_doc[OF ukey ein pin this] pd ed show False by simp
qed

subsection \<open>The two ways to a second project of the name are refused\<close>

lemma name_plain: "trim ''X'' \<noteq> []" "''X'' \<noteq> ''Y''"
  by (simp_all add: trim_plain)


text \<open>
  Restoring a task has no such check: once the deleted task is found, \<open>restore\<close> writes it
  back with \<open>deleted_at\<close> unset and one more history entry, and returns it.
\<close>

lemma task_restore_unconditional:
  assumes "t \<in> set (docs ts)" "distinct (map oid (docs ts))" "c ident = Some (oid t)"
    "team_id t = teamId" "deleted_at t \<noteq> None"
  shows "\<exists>ts' t'. restore c now ts ident teamId userId = (ts', Inr t')
           \<and> t' \<in> set (docs ts') \<and> oid t' = oid t \<and> deleted_at t' = None
           \<and> length (history t') = Suc (length (history t))
           \<and> map oid (docs ts') = map oid (docs ts)"
proof -
  let ?g = "\<lambda>d. if oid d = oid t then restore_doc now t userId d else d"
  let ?ts' = "\<lparr>docs = map ?g (docs ts), writes = Suc (writes ts)\<rparr>"
  let ?t' = "restore_doc now t userId t"
  have r: "restore c now ts ident teamId userId = (?ts', Inr ?t')"
    by (rule restore_ok[where c=c and ident=ident and s=ts and t=t, OF assms])
  have "?g t = ?t'" by simp
  with assms(1) have "?t' \<in> set (map ?g (docs ts))"
    unfolding set_map by (rule rev_image_eqI[OF _ sym])
  then have tin: "?t' \<in> set (docs ?ts')" by simp
  have "map oid (map ?g (docs ts)) = map oid (docs ts)"
    by (rule map_upd_keeps_oids) (simp add: restore_doc_def)
  then have mo: "map oid (docs ?ts') = map oid (docs ts)" by (simp del: map_map)
  have p: "oid ?t' = oid t" "deleted_at ?t' = None"
    "length (history ?t') = Suc (length (history t))"
    by (simp_all add: restore_doc_def)
  show ?thesis
    apply (rule exI[of _ ?ts'], rule exI[of _ ?t'])
    apply (intro conjI)
         apply (rule r)
        apply (rule tin)
       apply (rule p(1))
      apply (rule p(2))
     apply (rule p(3))
    apply (rule mo)
    done
qed

section \<open>What the history recorder, update and remove do record\<close>

text \<open>The history recorder on the task with 100 entries.\<close>

theorem addHistoryEntry_cap_witness:
  "length (history full_task) = 100
   \<and> history (addHistoryEntry 2000 ''updated'' user1 [] full_task) =
       tl (history full_task) @ [\<lparr>action = ''updated'', user_id = user1, timestamp = 2000, changes = []\<rparr>]
   \<and> length (history (addHistoryEntry 2000 ''updated'' user1 [] full_task)) = 100"
proof -
  have l: "length (history full_task) = 100" by (simp add: full_task_def)
  note r = addHistoryEntry_cap[OF l, of 2000 "''updated''" user1 "[]"]
  have "length (history (addHistoryEntry 2000 ''updated'' user1 [] full_task)) = 100"
    unfolding r using l by simp
  with l r show ?thesis by (intro conjI)
qed

text \<open>
  A successful \<open>update\<close> (the task is found, \<open>_id\<close> is unique) issues one write.
  It appends exactly one history entry, with
  the acting user and the instant of the call, whose change records name, in the DTO's
  order, exactly the properties whose value is defined and differs from the snapshot's.
  \<open>completed_at\<close> becomes the instant of the call when the DTO's status is done and the
  task had none; otherwise it keeps its value, so it is set once and never cleared.
\<close>

theorem update_appends_one_entry:
  assumes "findOne c s ident teamId = Inr t" "distinct (map oid (docs s))"
  shows "\<exists>s' u e. update c now s ident dto teamId userId = (s', Inr u)
           \<and> u \<in> set (docs s') \<and> writes s' = Suc (writes s)
           \<and> history u = history t @ [e]
           \<and> user_id e = userId \<and> timestamp e = now
           \<and> map field (changes e) =
               map key_of (filter (\<lambda>x. strict_ne (new_val x) (task_get t (key_of x)) \<and> new_val x \<noteq> VUndefined) dto)
           \<and> completed_at u =
               (if dto_get dto ''status'' = VStr ''done'' \<and> completed_at t = None then Some now
                else completed_at t)"
proof -
  let ?u = "update_doc now t dto userId t"
  let ?e = "\<lparr>action = action_of t dto, user_id = userId, timestamp = now,
             changes = map stored_change (changes_of t dto)\<rparr>"
  let ?s' = "\<lparr>docs = map (\<lambda>d. if oid d = oid t then update_doc now t dto userId d else d) (docs s),
       writes = Suc (writes s)\<rparr>"
  from findOne_InrD[OF assms(1)] have tin: "t \<in> set (docs s)" by simp
  have "(\<lambda>d. if oid d = oid t then update_doc now t dto userId d else d) t = ?u" by simp
  with tin have "?u \<in> set (map (\<lambda>d. if oid d = oid t then update_doc now t dto userId d else d) (docs s))"
    unfolding set_map by (rule rev_image_eqI[OF _ sym])
  then have uin: "?u \<in> set (docs ?s')" by simp
  have w: "writes ?s' = Suc (writes s)" by simp
  have e1: "user_id ?e = userId" and e2: "timestamp ?e = now" by simp_all
  have e3: "map field (changes ?e) =
               map key_of (filter (\<lambda>x. strict_ne (new_val x) (task_get t (key_of x)) \<and> new_val x \<noteq> VUndefined) dto)"
    using stored_change_field[of "changes_of t dto"] by (simp add: changes_of_fields del: map_map)
  show ?thesis
    apply (rule exI[of _ ?s'], rule exI[of _ ?u], rule exI[of _ ?e])
    apply (intro conjI)
           apply (rule update_ok[OF assms])
          apply (rule uin)
         apply (rule w)
        apply (rule update_doc_history)
       apply (rule e1)
      apply (rule e2)
     apply (rule e3)
    apply (rule update_doc_completed_at)
    done
qed

text \<open>Reopening the done task: one entry for the status, and \<open>completed_at\<close> stays.\<close>

theorem update_appends_one_entry_witness:
  "findOne ex_toObjectId ex_tasks_done id2 teamA = Inr done_task
   \<and> (\<exists>s' u e. update ex_toObjectId 2000 ex_tasks_done id2 [Status (Some BLOCKED)] teamA user1 = (s', Inr u)
           \<and> u \<in> set (docs s') \<and> writes s' = Suc (writes ex_tasks_done)
           \<and> history u = history done_task @ [e]
           \<and> user_id e = user1 \<and> timestamp e = 2000
           \<and> map field (changes e) = [''status'']
           \<and> completed_at u = Some 1200)"
proof -
  have f: "findOne ex_toObjectId ex_tasks_done id2 teamA = Inr done_task"
    by (simp add: findOne_def ex_toObjectId_def ids_distinct ex_tasks_done_def done_task_def ex_task_def)
  have u: "distinct (map oid (docs ex_tasks_done))"
    by (simp add: ex_tasks_done_def done_task_def ex_task_def)
  have k: "map key_of (filter (\<lambda>x. strict_ne (new_val x) (task_get done_task (key_of x)) \<and> new_val x \<noteq> VUndefined)
              [Status (Some BLOCKED)]) = [''status'']"
    by (simp add: strict_ne_def task_get_def opt_val_def done_task_def)
  have cm: "(if dto_get [Status (Some BLOCKED)] ''status'' = VStr ''done'' \<and> completed_at done_task = None
             then Some 2000 else completed_at done_task) = Some 1200"
    by (simp add: done_task_def)
  note r = update_appends_one_entry[where dto="[Status (Some BLOCKED)]" and now=2000 and userId=user1,
      OF f u, unfolded k cm]
  from f r show ?thesis by (intro conjI)
qed


text \<open>
  A successful \<open>remove\<close> issues one write: it sets \<open>deleted_at\<close>, leaves status and
  position alone and appends exactly one history entry, \<open>deleted\<close>, with the one change
  of \<open>deleted_at\<close>.
\<close>

theorem remove_appends_one_entry:
  assumes "findOne c s ident teamId = Inr t" "distinct (map oid (docs s))"
  shows "\<exists>s' u. remove c now s ident teamId userId = (s', Inr ())
           \<and> u \<in> set (docs s') \<and> oid u = oid t \<and> writes s' = Suc (writes s)
           \<and> deleted_at u = Some now \<and> status u = status t \<and> position u = position t
           \<and> history u = history t @
                 [\<lparr>action = ''deleted'', user_id = userId, timestamp = now,
                   changes = [\<lparr>field = ''deleted_at'', old_value = VNull, new_value = VDate now\<rparr>]\<rparr>]"
proof -
  let ?u = "remove_doc now userId t"
  let ?s' = "\<lparr>docs = map (\<lambda>d. if oid d = oid t then remove_doc now userId d else d) (docs s),
       writes = Suc (writes s)\<rparr>"
  from findOne_InrD[OF assms(1)] have tin: "t \<in> set (docs s)" by simp
  have "(\<lambda>d. if oid d = oid t then remove_doc now userId d else d) t = ?u" by simp
  with tin have "?u \<in> set (map (\<lambda>d. if oid d = oid t then remove_doc now userId d else d) (docs s))"
    unfolding set_map by (rule rev_image_eqI[OF _ sym])
  then have uin: "?u \<in> set (docs ?s')" by simp
  have p: "oid ?u = oid t" "writes ?s' = Suc (writes s)" "deleted_at ?u = Some now"
    "status ?u = status t" "position ?u = position t"
    "history ?u = history t @
                 [\<lparr>action = ''deleted'', user_id = userId, timestamp = now,
                   changes = [\<lparr>field = ''deleted_at'', old_value = VNull, new_value = VDate now\<rparr>]\<rparr>]"
    by (simp_all add: remove_doc_def)
  show ?thesis
    apply (rule exI[of _ ?s'], rule exI[of _ ?u])
    apply (intro conjI)
           apply (rule remove_ok[OF assms])
          apply (rule uin)
         apply (rule p(1))
        apply (rule p(2))
       apply (rule p(3))
      apply (rule p(4))
     apply (rule p(5))
    apply (rule p(6))
    done
qed

theorem remove_appends_one_entry_witness:
  "findOne ex_toObjectId ex_tasks id1 teamA = Inr ex_task
   \<and> (\<exists>s' u. remove ex_toObjectId 2000 ex_tasks id1 teamA user1 = (s', Inr ())
           \<and> u \<in> set (docs s') \<and> oid u = oid ex_task \<and> writes s' = Suc (writes ex_tasks)
           \<and> deleted_at u = Some 2000 \<and> status u = status ex_task \<and> position u = position ex_task
           \<and> history u = history ex_task @
                 [\<lparr>action = ''deleted'', user_id = user1, timestamp = 2000,
                   changes = [\<lparr>field = ''deleted_at'', old_value = VNull, new_value = VDate 2000\<rparr>]\<rparr>])"
proof -
  have f: "findOne ex_toObjectId ex_tasks id1 teamA = Inr ex_task"
    by (simp add: findOne_def ex_toObjectId_def ex_tasks_def ex_task_def)
  have u: "distinct (map oid (docs ex_tasks))"
    by (simp add: ex_tasks_def ex_task_def ex_task2_def ex_taskB_def)
  note r = remove_appends_one_entry[OF f u, of 2000 user1]
  from f r show ?thesis by (intro conjI)
qed

subsection \<open>The action label in general\<close>

lemma key_status: "key_of e = ''status'' \<longleftrightarrow> (\<exists>x. e = Status x)"
  by (cases e) simp_all

lemma key_assignee: "key_of e = ''assignee_id'' \<longleftrightarrow> (\<exists>x. e = Assignee_id x)"
  by (cases e) simp_all

lemma wf_dto_same_key:
  "wf_dto dto \<Longrightarrow> x \<in> set dto \<Longrightarrow> y \<in> set dto \<Longrightarrow> key_of x = key_of y \<Longrightarrow> x = y"
  unfolding wf_dto_def by (rule same_key_same_doc)

lemma dto_get_present:
  assumes "wf_dto dto" "e \<in> set dto"
  shows "dto_get dto (key_of e) = new_val e"
proof (rule dto_get_unique[OF assms(2)], intro ballI impI)
  fix x assume "x \<in> set dto" "key_of x = key_of e"
  then show "x = e" by (rule wf_dto_same_key[OF assms(1) _ assms(2)])
qed

lemma dto_get_absent:
  assumes "\<forall>e\<in>set dto. key_of e \<noteq> k"
  shows "dto_get dto k = VUndefined"
proof -
  have "find (\<lambda>e. key_of e = k) dto = None"
    unfolding find_None_iff using assms by blast
  then show ?thesis by (simp add: dto_get_def)
qed

lemma dto_get_status:
  assumes "wf_dto dto"
  shows "(truthy (dto_get dto ''status'') \<and> strict_ne (dto_get dto ''status'') (task_get t ''status''))
         \<longleftrightarrow> (\<exists>st. Status (Some st) \<in> set dto \<and> st \<noteq> status t)"
proof (cases "\<exists>x. Status x \<in> set dto")
  case True
  then obtain x where x: "Status x \<in> set dto" by blast
  from dto_get_present[OF assms x] have g: "dto_get dto ''status'' = new_val (Status x)" by simp
  have only: "y = x" if "Status y \<in> set dto" for y
  proof -
    have "Status y = Status x"
      by (rule wf_dto_same_key[OF assms that x]) simp
    then show ?thesis by simp
  qed
  show ?thesis
  proof (cases x)
    case None
    then have l: "\<not> truthy (dto_get dto ''status'')" using g by (simp add: opt_val_def)
    have "\<not> (\<exists>st. Status (Some st) \<in> set dto \<and> st \<noteq> status t)"
    proof
      assume "\<exists>st. Status (Some st) \<in> set dto \<and> st \<noteq> status t"
      then obtain st where "Status (Some st) \<in> set dto" by blast
      from only[OF this] None show False by simp
    qed
    with l show ?thesis by blast
  next
    case (Some st)
    have ne: "status_str st \<noteq> []" by (cases st) simp_all
    have l: "(truthy (dto_get dto ''status'') \<and> strict_ne (dto_get dto ''status'') (task_get t ''status''))
             \<longleftrightarrow> st \<noteq> status t"
      using g ne by (simp add: Some opt_val_def strict_ne_def task_get_def status_str_inj)
    have r: "(\<exists>st'. Status (Some st') \<in> set dto \<and> st' \<noteq> status t) \<longleftrightarrow> st \<noteq> status t"
    proof
      assume "\<exists>st'. Status (Some st') \<in> set dto \<and> st' \<noteq> status t"
      then obtain st' where s: "Status (Some st') \<in> set dto" "st' \<noteq> status t" by blast
      from only[OF s(1)] Some have "st' = st" by simp
      with s(2) show "st \<noteq> status t" by simp
    next
      assume "st \<noteq> status t"
      with x Some show "\<exists>st'. Status (Some st') \<in> set dto \<and> st' \<noteq> status t" by blast
    qed
    from l r show ?thesis by simp
  qed
next
  case False
  have "\<forall>e\<in>set dto. key_of e \<noteq> ''status''"
  proof
    fix e assume e: "e \<in> set dto"
    show "key_of e \<noteq> ''status''"
    proof
      assume "key_of e = ''status''"
      then obtain y where "e = Status y" unfolding key_status by blast
      with e False show False by blast
    qed
  qed
  from dto_get_absent[OF this] have "\<not> truthy (dto_get dto ''status'')" by simp
  moreover from False have "\<not> (\<exists>st. Status (Some st) \<in> set dto \<and> st \<noteq> status t)" by blast
  ultimately show ?thesis by blast
qed


lemma dto_get_assignee:
  assumes "wf_dto dto"
  shows "(truthy (dto_get dto ''assignee_id'')
           \<and> strict_ne (dto_get dto ''assignee_id'') (task_get t ''assignee_id''))
         \<longleftrightarrow> (\<exists>a. Assignee_id (Some a) \<in> set dto \<and> a \<noteq> [] \<and> Some a \<noteq> assignee_id t)"
proof (cases "\<exists>x. Assignee_id x \<in> set dto")
  case True
  then obtain x where x: "Assignee_id x \<in> set dto" by blast
  from dto_get_present[OF assms x] have g: "dto_get dto ''assignee_id'' = new_val (Assignee_id x)" by simp
  have only: "y = x" if "Assignee_id y \<in> set dto" for y
  proof -
    have "Assignee_id y = Assignee_id x"
      by (rule wf_dto_same_key[OF assms that x]) simp
    then show ?thesis by simp
  qed
  show ?thesis
  proof (cases x)
    case None
    then have l: "\<not> truthy (dto_get dto ''assignee_id'')" using g by (simp add: opt_val_def)
    have "\<not> (\<exists>a. Assignee_id (Some a) \<in> set dto \<and> a \<noteq> [] \<and> Some a \<noteq> assignee_id t)"
    proof
      assume "\<exists>a. Assignee_id (Some a) \<in> set dto \<and> a \<noteq> [] \<and> Some a \<noteq> assignee_id t"
      then obtain a where "Assignee_id (Some a) \<in> set dto" by blast
      from only[OF this] None show False by simp
    qed
    with l show ?thesis by blast
  next
    case (Some a)
    have l: "(truthy (dto_get dto ''assignee_id'')
               \<and> strict_ne (dto_get dto ''assignee_id'') (task_get t ''assignee_id''))
             \<longleftrightarrow> (a \<noteq> [] \<and> Some a \<noteq> assignee_id t)"
      using g by (cases "assignee_id t") (simp_all add: Some opt_val_def strict_ne_def task_get_def)
    have r: "(\<exists>a'. Assignee_id (Some a') \<in> set dto \<and> a' \<noteq> [] \<and> Some a' \<noteq> assignee_id t)
             \<longleftrightarrow> (a \<noteq> [] \<and> Some a \<noteq> assignee_id t)"
    proof
      assume "\<exists>a'. Assignee_id (Some a') \<in> set dto \<and> a' \<noteq> [] \<and> Some a' \<noteq> assignee_id t"
      then obtain a' where s: "Assignee_id (Some a') \<in> set dto" "a' \<noteq> []" "Some a' \<noteq> assignee_id t"
        by blast
      from only[OF s(1)] Some have "a' = a" by simp
      with s(2,3) show "a \<noteq> [] \<and> Some a \<noteq> assignee_id t" by simp
    next
      assume "a \<noteq> [] \<and> Some a \<noteq> assignee_id t"
      with x Some show "\<exists>a'. Assignee_id (Some a') \<in> set dto \<and> a' \<noteq> [] \<and> Some a' \<noteq> assignee_id t"
        by blast
    qed
    from l r show ?thesis by simp
  qed
next
  case False
  have "\<forall>e\<in>set dto. key_of e \<noteq> ''assignee_id''"
  proof
    fix e assume e: "e \<in> set dto"
    show "key_of e \<noteq> ''assignee_id''"
    proof
      assume "key_of e = ''assignee_id''"
      then obtain y where "e = Assignee_id y" unfolding key_assignee by blast
      with e False show False by blast
    qed
  qed
  from dto_get_absent[OF this] have "\<not> truthy (dto_get dto ''assignee_id'')" by simp
  moreover from False
  have "\<not> (\<exists>a. Assignee_id (Some a) \<in> set dto \<and> a \<noteq> [] \<and> Some a \<noteq> assignee_id t)" by blast
  ultimately show ?thesis by blast
qed

text \<open>
  The action label of \<open>update\<close>, for any DTO: \<open>status_changed\<close> when the DTO gives a
  status other than the task's; else \<open>assigned\<close> when it gives a non-empty assignee other
  than the task's; else \<open>updated\<close>.
\<close>

lemma action_of_precedence:
  assumes "wf_dto dto"
  shows "action_of t dto =
     (if \<exists>st. Status (Some st) \<in> set dto \<and> st \<noteq> status t then ''status_changed''
      else if \<exists>a. Assignee_id (Some a) \<in> set dto \<and> a \<noteq> [] \<and> Some a \<noteq> assignee_id t then ''assigned''
      else ''updated'')"
  unfolding action_of_def dto_get_status[OF assms] dto_get_assignee[OF assms] by (rule refl)

end
